theory Spec2Isabelle
  imports Main "HOL-Library.Word" "HOL-Library.AList"
begin

unbundle bit_operations_syntax

section \<open>File modes and stat buffers\<close>

text \<open>
  The program under study is \<^verbatim>\<open>src/isnapshot.c\<close>: an incremental snapshot tool that
  walks source trees and, below a timestamp-named directory of the backup root, copies
  changed files and links unchanged ones to the previous snapshot.

  \<^verbatim>\<open>mode_t\<close> is an unsigned 32-bit integer. The file-type and permission constants are
  those of \<^verbatim>\<open><sys/stat.h>\<close> on Linux; the octal value of each is given beside
  its hexadecimal form.
\<close>

type_synonym mode_t = "32 word"

definition S_IFMT :: mode_t where "S_IFMT = 0xF000"    \<comment> \<open>0170000\<close>
definition S_IFSOCK :: mode_t where "S_IFSOCK = 0xC000"  \<comment> \<open>0140000\<close>
definition S_IFLNK :: mode_t where "S_IFLNK = 0xA000"   \<comment> \<open>0120000\<close>
definition S_IFREG :: mode_t where "S_IFREG = 0x8000"   \<comment> \<open>0100000\<close>
definition S_IFBLK :: mode_t where "S_IFBLK = 0x6000"   \<comment> \<open>0060000\<close>
definition S_IFDIR :: mode_t where "S_IFDIR = 0x4000"   \<comment> \<open>0040000\<close>
definition S_IFCHR :: mode_t where "S_IFCHR = 0x2000"   \<comment> \<open>0020000\<close>
definition S_IFIFO :: mode_t where "S_IFIFO = 0x1000"   \<comment> \<open>0010000\<close>
definition S_ISUID :: mode_t where "S_ISUID = 0x800"    \<comment> \<open>04000\<close>
definition S_ISGID :: mode_t where "S_ISGID = 0x400"    \<comment> \<open>02000\<close>
definition S_IRWXU :: mode_t where "S_IRWXU = 0x1C0"    \<comment> \<open>0700\<close>

definition S_ISDIR :: "mode_t \<Rightarrow> bool" where "S_ISDIR m = (m AND S_IFMT = S_IFDIR)"
definition S_ISREG :: "mode_t \<Rightarrow> bool" where "S_ISREG m = (m AND S_IFMT = S_IFREG)"
definition S_ISLNK :: "mode_t \<Rightarrow> bool" where "S_ISLNK m = (m AND S_IFMT = S_IFLNK)"
definition S_ISBLK :: "mode_t \<Rightarrow> bool" where "S_ISBLK m = (m AND S_IFMT = S_IFBLK)"
definition S_ISCHR :: "mode_t \<Rightarrow> bool" where "S_ISCHR m = (m AND S_IFMT = S_IFCHR)"
definition S_ISFIFO :: "mode_t \<Rightarrow> bool" where "S_ISFIFO m = (m AND S_IFMT = S_IFIFO)"
definition S_ISSOCK :: "mode_t \<Rightarrow> bool" where "S_ISSOCK m = (m AND S_IFMT = S_IFSOCK)"

text \<open>
  \<^verbatim>\<open>PATH_MAX\<close>: lines 50--52 of the source supply 2048 only where the system headers
  define none; on Linux \<^verbatim>\<open><dirent.h>\<close> brings in the system's value, 4096, and that is
  also the length at which the kernel refuses a path.
\<close>

definition PATH_MAX :: nat where "PATH_MAX = 4096"

text \<open>The fields of \<^verbatim>\<open>struct stat\<close> that the program reads.\<close>

record stat =
  st_mode :: mode_t
  st_uid :: nat
  st_gid :: nat
  st_rdev :: nat
  st_size :: int
  st_blksize :: nat
  st_atime :: int
  st_mtime :: int

text \<open>The fields of \<^verbatim>\<open>struct tm\<close> (broken-down time).\<close>

record tm =
  tm_sec :: int
  tm_min :: int
  tm_hour :: int
  tm_mday :: int
  tm_mon :: int
  tm_year :: int
  tm_isdst :: int

section \<open>Program state\<close>

text \<open>
  The file-scope variables of lines 54--60. The options set once by \<^verbatim>\<open>main\<close> form the
  record \<open>config\<close>; the two byte accumulators are fields of the \<open>world\<close> below. Only the
  text of the messages depends on \<open>verbose\<close>, and the messages are not modelled.
\<close>

record config =
  verbose :: bool
  force_copy :: bool
  count_bytes :: bool
  date_format :: string
  exclude_pattern :: "string option"

text \<open>
  What the C library and the compiler fix and the source only uses: the size of a
  \<^verbatim>\<open>char*\<close>, and the functions \<^verbatim>\<open>strptime\<close> (returning the parsed time and the
  unparsed rest of the input, or nothing), \<^verbatim>\<open>mktime\<close> and \<^verbatim>\<open>fnmatch\<close>. They are
  parameters of the model; every general theorem holds for all of them.
\<close>

record platform =
  sizeof_char_ptr :: nat
  strptime :: "string \<Rightarrow> string \<Rightarrow> (tm \<times> string) option"
  mktime :: "tm \<Rightarrow> int"
  fnmatch :: "string \<Rightarrow> string \<Rightarrow> int \<Rightarrow> int"

text \<open>
  The file system is a store from path strings to nodes, in order of creation. A node
  carries its stat buffer and its bytes: the data of a regular file, the target of a
  symbolic link. A path names the node stored under exactly that string: the store does
  not identify different spellings of one path, and it follows symbolic links only in
  the last component.
\<close>

record node =
  meta :: stat
  content :: string

type_synonym files = "(string \<times> node) list"

text \<open>The system calls the program issues, with their arguments.\<close>

datatype syscall =
    Sys_lstat string
  | Sys_stat string
  | Sys_utime string int int
  | Sys_chown string nat nat
  | Sys_lchown string nat nat
  | Sys_chmod string mode_t
  | Sys_mkdir string mode_t
  | Sys_opendir string
  | Sys_open_rdonly string
  | Sys_open_creat string mode_t
  | Sys_malloc nat
  | Sys_read string nat
  | Sys_write string nat
  | Sys_readlink string nat
  | Sys_symlink string string
  | Sys_mkfifo string mode_t
  | Sys_mknod string mode_t nat

text \<open>
  The world: the store, the process's umask, identity and clock, the accumulators
  \<^verbatim>\<open>total_bytes\<close> and \<^verbatim>\<open>bytes_copied\<close> (\<^verbatim>\<open>off_t\<close>, modelled as unbounded integers),
  the log of every system call made with whether it succeeded, and \<open>faults\<close>: which call
  the environment lets fail, by the number of calls made before it. A call fails when
  \<open>faults\<close> says so or when the store cannot serve it.
\<close>

record world =
  files :: files
  cmask :: mode_t
  euid :: nat
  egid :: nat
  now :: int
  total_bytes :: int
  bytes_copied :: int
  trace :: "(syscall \<times> bool) list"
  faults :: "nat \<Rightarrow> syscall \<Rightarrow> bool"

section \<open>Paths\<close>

text \<open>Lines 118--121.\<close>

definition ignore_dir :: "string \<Rightarrow> bool" where
  "ignore_dir name =
     (case name of
        [] \<Rightarrow> False
      | c # r \<Rightarrow> c = CHR ''.'' \<and> (r = [] \<or> r = ''.''))"

text \<open>
  Lines 126--148. For an empty \<open>path\<close> the source reads the byte before the string; the
  model takes that byte not to be a slash. A failing \<^verbatim>\<open>malloc\<close> here (a null result the
  callers never test) is not modelled.
\<close>

definition join_path :: "string \<Rightarrow> string \<Rightarrow> string" where
  "join_path path filename =
     path @ (if path \<noteq> [] \<and> last path = CHR ''/'' then [] else ''/'')
          @ dropWhile (\<lambda>c. c = CHR ''/'') filename"

text \<open>The C library's \<^verbatim>\<open>dirname\<close> and \<^verbatim>\<open>basename\<close>, as POSIX describes them.\<close>

definition strip_slashes :: "string \<Rightarrow> string" where
  "strip_slashes p = rev (dropWhile (\<lambda>c. c = CHR ''/'') (rev p))"

definition dirname :: "string \<Rightarrow> string" where
  "dirname p =
     (let q = strip_slashes p in
      if q = [] then (if p = [] then ''.'' else ''/'')
      else if CHR ''/'' \<notin> set q then ''.''
      else (let d = strip_slashes (rev (dropWhile (\<lambda>c. c \<noteq> CHR ''/'') (rev q)))
            in if d = [] then ''/'' else d))"

text \<open>
  Where the path has no directory part, glibc's \<^verbatim>\<open>dirname\<close> does not return the buffer
  it was given but its own static \<^verbatim>\<open>"."\<close>: for the empty path, and for a path that has
  no slash left once its trailing slashes are dropped.
\<close>

definition dirname_static :: "string \<Rightarrow> bool" where
  "dirname_static p =
     (let q = strip_slashes p in if q = [] then p = [] else CHR ''/'' \<notin> set q)"

definition basename :: "string \<Rightarrow> string" where
  "basename p = rev (takeWhile (\<lambda>c. c \<noteq> CHR ''/'') (rev (strip_slashes p)))"

definition valid_path :: "string \<Rightarrow> bool" where
  "valid_path p = (p \<noteq> [] \<and> length p < PATH_MAX)"

section \<open>The store\<close>

definition stat_of :: "node \<Rightarrow> stat" where
  "stat_of n =
     (if S_ISREG (st_mode (meta n)) \<or> S_ISLNK (st_mode (meta n))
      then (meta n)\<lparr>st_size := int (length (content n))\<rparr>
      else meta n)"

definition list_dir :: "files \<Rightarrow> string \<Rightarrow> string list" where
  "list_dir fs d = map basename (filter (\<lambda>p. p \<noteq> d \<and> dirname p = d) (map fst fs))"

text \<open>
  Following symbolic links, at most \<open>MAXSYMLINKS\<close> of them; a relative target is read
  from the directory of the link.
\<close>

definition MAXSYMLINKS :: nat where "MAXSYMLINKS = 40"

definition link_target_path :: "string \<Rightarrow> string \<Rightarrow> string" where
  "link_target_path p t =
     (case t of
        [] \<Rightarrow> t
      | c # r \<Rightarrow> if c = CHR ''/'' then t else join_path (dirname p) t)"

fun follow :: "nat \<Rightarrow> files \<Rightarrow> string \<Rightarrow> (string \<times> node) option" where
  "follow 0 fs p = None"
| "follow (Suc k) fs p =
     (case map_of fs p of
        None \<Rightarrow> None
      | Some n \<Rightarrow>
          if S_ISLNK (st_mode (meta n))
          then follow k fs (link_target_path p (content n))
          else Some (p, n))"

definition resolve :: "files \<Rightarrow> string \<Rightarrow> (string \<times> node) option" where
  "resolve fs p = (if valid_path p then follow (Suc MAXSYMLINKS) fs p else None)"

definition update_meta :: "string \<Rightarrow> (stat \<Rightarrow> stat) \<Rightarrow> files \<Rightarrow> files" where
  "update_meta q f fs = AList.map_entry q (\<lambda>n. n\<lparr>meta := f (meta n)\<rparr>) fs"

definition parent_is_dir :: "files \<Rightarrow> string \<Rightarrow> bool" where
  "parent_is_dir fs p =
     (case map_of fs (dirname p) of
        None \<Rightarrow> False
      | Some n \<Rightarrow> S_ISDIR (st_mode (meta n)))"

text \<open>
  A new node: its path is free and its parent is a directory. It belongs to the
  process, carries the current time and the block size of its directory.
\<close>

definition create :: "string \<Rightarrow> mode_t \<Rightarrow> nat \<Rightarrow> string \<Rightarrow> world \<Rightarrow> files option" where
  "create p m rdev bytes w =
     (if valid_path p \<and> map_of (files w) p = None \<and> parent_is_dir (files w) p
      then Some (files w @
        [(p, \<lparr>meta = \<lparr>st_mode = m, st_uid = euid w, st_gid = egid w, st_rdev = rdev,
                      st_size = 0,
                      st_blksize = (case map_of (files w) (dirname p) of
                                      None \<Rightarrow> 0 | Some d \<Rightarrow> st_blksize (meta d)),
                      st_atime = now w, st_mtime = now w\<rparr>,
               content = bytes\<rparr>)])
      else None)"

section \<open>System calls\<close>

text \<open>
  Every call is logged with its outcome. A failed call leaves the store as it was.
\<close>

definition log_call :: "syscall \<Rightarrow> bool \<Rightarrow> world \<Rightarrow> world" where
  "log_call c ok w = w\<lparr>trace := trace w @ [(c, ok)]\<rparr>"

definition sys_call ::
  "syscall \<Rightarrow> (world \<Rightarrow> ('a \<times> files) option) \<Rightarrow> world \<Rightarrow> 'a option \<times> world" where
  "sys_call c sem w =
     (case (if faults w (length (trace w)) c then None else sem w) of
        None \<Rightarrow> (None, log_call c False w)
      | Some (a, fs) \<Rightarrow> (Some a, log_call c True (w\<lparr>files := fs\<rparr>)))"

definition lstat :: "string \<Rightarrow> world \<Rightarrow> stat option \<times> world" where
  "lstat p =
     sys_call (Sys_lstat p)
       (\<lambda>w. if valid_path p
            then map_option (\<lambda>n. (stat_of n, files w)) (map_of (files w) p)
            else None)"

definition stat :: "string \<Rightarrow> world \<Rightarrow> stat option \<times> world" where
  "stat p =
     sys_call (Sys_stat p)
       (\<lambda>w. map_option (\<lambda>(q, n). (stat_of n, files w)) (resolve (files w) p))"

definition utime :: "string \<Rightarrow> int \<Rightarrow> int \<Rightarrow> world \<Rightarrow> unit option \<times> world" where
  "utime p actime modtime =
     sys_call (Sys_utime p actime modtime)
       (\<lambda>w. map_option
              (\<lambda>(q, n). ((), update_meta q (\<lambda>s. s\<lparr>st_atime := actime, st_mtime := modtime\<rparr>)
                                (files w)))
              (resolve (files w) p))"

definition chown :: "string \<Rightarrow> nat \<Rightarrow> nat \<Rightarrow> world \<Rightarrow> unit option \<times> world" where
  "chown p uid gid =
     sys_call (Sys_chown p uid gid)
       (\<lambda>w. map_option
              (\<lambda>(q, n). ((), update_meta q (\<lambda>s. s\<lparr>st_uid := uid, st_gid := gid\<rparr>) (files w)))
              (resolve (files w) p))"

definition lchown :: "string \<Rightarrow> nat \<Rightarrow> nat \<Rightarrow> world \<Rightarrow> unit option \<times> world" where
  "lchown p uid gid =
     sys_call (Sys_lchown p uid gid)
       (\<lambda>w. if valid_path p
            then map_option
                   (\<lambda>n. ((), update_meta p (\<lambda>s. s\<lparr>st_uid := uid, st_gid := gid\<rparr>) (files w)))
                   (map_of (files w) p)
            else None)"

text \<open>\<^verbatim>\<open>chmod\<close> sets the twelve permission bits and keeps the file type.\<close>

definition chmod :: "string \<Rightarrow> mode_t \<Rightarrow> world \<Rightarrow> unit option \<times> world" where
  "chmod p m =
     sys_call (Sys_chmod p m)
       (\<lambda>w. map_option
              (\<lambda>(q, n). ((), update_meta q
                                (\<lambda>s. s\<lparr>st_mode := (st_mode s AND S_IFMT) OR (m AND 0xFFF)\<rparr>)
                                (files w)))
              (resolve (files w) p))"

text \<open>
  The creating calls filter the requested permission bits through the umask.
\<close>

definition mkdir :: "string \<Rightarrow> mode_t \<Rightarrow> world \<Rightarrow> unit option \<times> world" where
  "mkdir p m =
     sys_call (Sys_mkdir p m)
       (\<lambda>w. map_option (\<lambda>fs. ((), fs))
              (create p (S_IFDIR OR (m AND NOT (cmask w) AND 0x3FF)) 0 [] w))"

definition mkfifo :: "string \<Rightarrow> mode_t \<Rightarrow> world \<Rightarrow> unit option \<times> world" where
  "mkfifo p m =
     sys_call (Sys_mkfifo p m)
       (\<lambda>w. map_option (\<lambda>fs. ((), fs))
              (create p (S_IFIFO OR (m AND NOT (cmask w) AND 0x1FF)) 0 [] w))"

definition mknod :: "string \<Rightarrow> mode_t \<Rightarrow> nat \<Rightarrow> world \<Rightarrow> unit option \<times> world" where
  "mknod p m dev =
     sys_call (Sys_mknod p m dev)
       (\<lambda>w. if S_ISDIR m \<or> S_ISLNK m then None
            else map_option (\<lambda>fs. ((), fs))
                   (create p ((m AND S_IFMT) OR (m AND NOT (cmask w) AND 0xFFF)) dev [] w))"

definition symlink :: "string \<Rightarrow> string \<Rightarrow> world \<Rightarrow> unit option \<times> world" where
  "symlink target p =
     sys_call (Sys_symlink target p)
       (\<lambda>w. if valid_path target
            then map_option (\<lambda>fs. ((), fs)) (create p (S_IFLNK OR 0x1FF) 0 target w)
            else None)"

text \<open>\<^verbatim>\<open>readlink\<close> fills at most \<open>bufsiz\<close> bytes and does not follow the link.\<close>

definition readlink :: "string \<Rightarrow> nat \<Rightarrow> world \<Rightarrow> string option \<times> world" where
  "readlink p bufsiz =
     sys_call (Sys_readlink p bufsiz)
       (\<lambda>w. if valid_path p
            then (case map_of (files w) p of
                    None \<Rightarrow> None
                  | Some n \<Rightarrow>
                      if S_ISLNK (st_mode (meta n))
                      then Some (take bufsiz (content n), files w)
                      else None)
            else None)"

text \<open>
  \<^verbatim>\<open>opendir\<close> with the \<^verbatim>\<open>readdir\<close> calls that follow it: the names in the directory when
  it is opened, the two pseudo-entries first.
\<close>

definition opendir :: "string \<Rightarrow> world \<Rightarrow> string list option \<times> world" where
  "opendir p =
     sys_call (Sys_opendir p)
       (\<lambda>w. case resolve (files w) p of
              None \<Rightarrow> None
            | Some (q, n) \<Rightarrow>
                if S_ISDIR (st_mode (meta n))
                then Some (''.'' # ''..'' # list_dir (files w) q, files w)
                else None)"

text \<open>
  \<^verbatim>\<open>open(source, O_RDONLY)\<close>: the descriptor is modelled by the bytes still to be read,
  fixed when the file is opened.
\<close>

definition open_rdonly :: "string \<Rightarrow> world \<Rightarrow> string option \<times> world" where
  "open_rdonly p =
     sys_call (Sys_open_rdonly p)
       (\<lambda>w. map_option (\<lambda>(q, n). (content n, files w)) (resolve (files w) p))"

text \<open>
  \<^verbatim>\<open>open(dest, O_WRONLY|O_CREAT, mode)\<close>: a free path gets a new, empty regular file; an
  existing one is opened as it is (nothing is truncated). The descriptor is modelled by
  the path of the file it writes to.
\<close>

definition open_creat :: "string \<Rightarrow> mode_t \<Rightarrow> world \<Rightarrow> string option \<times> world" where
  "open_creat p m =
     sys_call (Sys_open_creat p m)
       (\<lambda>w. if \<not> valid_path p then None
            else (case map_of (files w) p of
                    None \<Rightarrow>
                      map_option (\<lambda>fs. (p, fs))
                        (create p (S_IFREG OR (m AND NOT (cmask w) AND 0xFFF)) 0 [] w)
                  | Some _ \<Rightarrow>
                      (case resolve (files w) p of
                         None \<Rightarrow> None
                       | Some (q, n) \<Rightarrow>
                           if S_ISDIR (st_mode (meta n)) then None else Some (q, files w))))"

definition malloc :: "nat \<Rightarrow> world \<Rightarrow> unit option \<times> world" where
  "malloc k = sys_call (Sys_malloc k) (\<lambda>w. Some ((), files w))"

text \<open>
  \<^verbatim>\<open>read\<close> of at most \<open>count\<close> bytes from the bytes left; \<^verbatim>\<open>write\<close> of a chunk at an
  offset of the open destination.
\<close>

definition read_fd :: "string \<Rightarrow> string \<Rightarrow> nat \<Rightarrow> world \<Rightarrow> string option \<times> world" where
  "read_fd name rest count =
     sys_call (Sys_read name count) (\<lambda>w. Some (take count rest, files w))"

definition write_at :: "nat \<Rightarrow> string \<Rightarrow> string \<Rightarrow> string" where
  "write_at off chunk old =
     take off (old @ replicate (off - length old) (CHR 0x00)) @ chunk
       @ drop (off + length chunk) old"

definition write_fd :: "string \<Rightarrow> nat \<Rightarrow> string \<Rightarrow> world \<Rightarrow> unit option \<times> world" where
  "write_fd q off chunk =
     sys_call (Sys_write q (length chunk))
       (\<lambda>w. map_option
              (\<lambda>n. ((), AList.map_entry q
                          (\<lambda>n. n\<lparr>meta := (meta n)\<lparr>st_mtime := now w\<rparr>,
                                 content := write_at off chunk (content n)\<rparr>)
                          (files w)))
              (map_of (files w) q))"

section \<open>The program\<close>

text \<open>
  Lines 81--116, \<^verbatim>\<open>rmkdir\<close>. The recursion on the parent has no bound in the source (a
  parent that can neither be examined nor created, such as an unreadable root, is tried
  again for ever), so the model counts the depth of recursion left. Every way through
  the function ends at line 114, which frees what \<^verbatim>\<open>dirname\<close> returned: that is the copy
  of the path made at line 87 when the path has a directory part, and the C library's
  static \<^verbatim>\<open>"."\<close> when it has none. Freeing the latter is undefined, and aborts the run.
  \<open>None\<close> is a run that does not return, for either reason. Otherwise the result is the
  C return value, 0 or -1.
\<close>

fun rmkdir :: "nat \<Rightarrow> string \<Rightarrow> mode_t \<Rightarrow> world \<Rightarrow> (int \<times> world) option" where
  "rmkdir 0 path m w = None"
| "rmkdir (Suc n) path m w =
     (let parent = dirname path;
          (ps, w1) = stat parent w
      in case (if ps = None then rmkdir n parent m w1 else Some (0, w1)) of
           None \<Rightarrow> None
         | Some (r, w2) \<Rightarrow>
             (let (ret, w5) =
                    (if ps = None \<and> r < 0 then (- 1, w2)
                     else (let (sb, w3) = stat path w2 in
                           if (case sb of None \<Rightarrow> False | Some b \<Rightarrow> S_ISDIR (st_mode b))
                           then (0, w3)
                           else (let (r', w4) = mkdir path m w3
                                 in (if r' = None then - 1 else 0, w4))))
              in if dirname_static path then None else Some (ret, w5)))"

text \<open>
  Lines 153--195, \<^verbatim>\<open>locate_previous\<close>: the loop over the names of the root, with the
  running maximum \<open>latest\<close> and the path found so far.
\<close>

fun locate_loop ::
  "platform \<Rightarrow> config \<Rightarrow> string \<Rightarrow> string list \<Rightarrow> int \<Rightarrow> string option \<Rightarrow> string option" where
  "locate_loop pf cfg root [] latest result = result"
| "locate_loop pf cfg root (name # names) latest result =
     (if ignore_dir name then locate_loop pf cfg root names latest result
      else (case strptime pf name (date_format cfg) of
              None \<Rightarrow> locate_loop pf cfg root names latest result
            | Some (t, res) \<Rightarrow>
                if res \<noteq> [] then locate_loop pf cfg root names latest result
                else (let current = mktime pf t in
                      if current > latest
                      then locate_loop pf cfg root names current (Some (join_path root name))
                      else locate_loop pf cfg root names latest result)))"

definition locate_previous ::
  "platform \<Rightarrow> config \<Rightarrow> string \<Rightarrow> world \<Rightarrow> string option \<times> world" where
  "locate_previous pf cfg root w =
     (case opendir root w of
        (None, w1) \<Rightarrow> (None, w1)
      | (Some names, w1) \<Rightarrow> (locate_loop pf cfg root names 0 None, w1))"

text \<open>
  Lines 200--228, \<^verbatim>\<open>copy_time\<close>. The function writes to the caller's stat buffer when
  \<^verbatim>\<open>chown\<close> fails, so the buffer is returned with the result.
\<close>

definition copy_time :: "string \<Rightarrow> stat \<Rightarrow> world \<Rightarrow> bool \<times> stat \<times> world" where
  "copy_time file s w =
     (let (r1, w1) = utime file (st_atime s) (st_mtime s) w;
          (r2, w2) = chown file (st_uid s) (st_gid s) w1;
          s' = (if r2 = None then s\<lparr>st_mode := st_mode s AND NOT (S_ISUID OR S_ISGID)\<rparr> else s);
          (r3, w3) = chmod file (st_mode s') w2
      in (r1 \<noteq> None \<and> r2 \<noteq> None \<and> r3 \<noteq> None, s', w3))"

text \<open>
  Lines 265--273, the loop of \<^verbatim>\<open>copy_file\<close>: \<open>count\<close> is the third argument of
  \<^verbatim>\<open>read\<close>. A failed \<^verbatim>\<open>read\<close> (a negative result) ends the loop like the end of the file
  does, with the result unchanged.
\<close>

function copy_loop ::
  "nat \<Rightarrow> string \<Rightarrow> string \<Rightarrow> string \<Rightarrow> nat \<Rightarrow> world \<Rightarrow> bool \<times> world" where
  "copy_loop count source rest out off w =
     (case read_fd source rest count w of
        (None, w1) \<Rightarrow> (True, w1)
      | (Some chunk, w1) \<Rightarrow>
          if chunk = [] then (True, w1)
          else (case write_fd out off chunk w1 of
                  (None, w2) \<Rightarrow> (False, w2)
                | (Some u, w2) \<Rightarrow>
                    copy_loop count source (drop (length chunk) rest) out
                      (off + length chunk) w2))"
  by pat_completeness auto
termination
  by (relation "measure (\<lambda>(count, source, rest, out, off, w). length rest)")
     (auto simp: read_fd_def sys_call_def split: if_splits)

text \<open>
  Lines 233--281, \<^verbatim>\<open>copy_file\<close>. The buffer is allocated with the block size of the
  source; the count given to \<^verbatim>\<open>read\<close> is \<^verbatim>\<open>sizeof(buffer)\<close>, the size of the pointer.
  The two early exits (lines 244 and 252) jump to \<^verbatim>\<open>done\<close>, where line 279 frees the
  pointer \<^verbatim>\<open>buffer\<close> that has not been set yet: undefined behaviour, which aborts the
  run. The model gives \<open>None\<close> there, a run that does not return. After both files are
  open the function returns: false when the allocation fails or a \<^verbatim>\<open>write\<close> is short,
  true otherwise.
\<close>

definition copy_file ::
  "platform \<Rightarrow> string \<Rightarrow> string \<Rightarrow> stat \<Rightarrow> world \<Rightarrow> (bool \<times> world) option" where
  "copy_file pf source dest s w =
     (case open_rdonly source w of
        (None, w1) \<Rightarrow> None
      | (Some inp, w1) \<Rightarrow>
          (case open_creat dest (st_mode s) w1 of
             (None, w2) \<Rightarrow> None
           | (Some out, w2) \<Rightarrow>
               (case malloc (st_blksize s) w2 of
                  (None, w3) \<Rightarrow> Some (False, w3)
                | (Some buffer, w3) \<Rightarrow>
                    Some (copy_loop (sizeof_char_ptr pf) source inp out 0 w3))))"

text \<open>Lines 289--318, \<^verbatim>\<open>symlink_file\<close>.\<close>

definition symlink_file :: "string \<Rightarrow> string \<Rightarrow> world \<Rightarrow> bool \<times> world" where
  "symlink_file source dest w =
     (case lstat source w of
        (None, w1) \<Rightarrow> (False, w1)
      | (Some s, w1) \<Rightarrow>
          if S_ISLNK (st_mode s)
          then (case readlink source PATH_MAX w1 of
                  (None, w2) \<Rightarrow> (False, w2)
                | (Some buffer, w2) \<Rightarrow>
                    (let (r, w3) = symlink buffer dest w2 in (r \<noteq> None, w3)))
          else (let (r, w2) = symlink source dest w1 in (r \<noteq> None, w2)))"

text \<open>
  Lines 383--394, the loop over the entries of a directory; \<open>walk\<close> is the recursive
  call of \<^verbatim>\<open>process_file\<close> on a child. The loop ends at the first entry read after
  \<open>result\<close> became false.
\<close>

fun dir_loop ::
  "(string \<Rightarrow> world \<Rightarrow> (bool \<times> world) option) \<Rightarrow> string \<Rightarrow> string list \<Rightarrow> bool \<Rightarrow> world
     \<Rightarrow> (bool \<times> world) option" where
  "dir_loop walk source [] result w = Some (result, w)"
| "dir_loop walk source (name # names) result w =
     (if \<not> result then Some (result, w)
      else if ignore_dir name then dir_loop walk source names result w
      else (case walk (join_path source name) w of
              None \<Rightarrow> None
            | Some (r, w') \<Rightarrow> dir_loop walk source names r w'))"

text \<open>Line 350: the exclusion test.\<close>

definition excluded :: "config \<Rightarrow> platform \<Rightarrow> string \<Rightarrow> bool" where
  "excluded cfg pf source =
     (case exclude_pattern cfg of
        None \<Rightarrow> False
      | Some pat \<Rightarrow> fnmatch pf pat source 0 = 0)"

text \<open>
  Lines 338--503, \<^verbatim>\<open>process_file\<close>. The first argument bounds the depth of recursion
  (of the walk itself and of \<^verbatim>\<open>rmkdir\<close>): the source has no bound, and a destination
  inside a source tree makes the walk descend into what it creates. \<open>None\<close> is a run
  that does not return within that depth.
\<close>

fun process_file ::
  "nat \<Rightarrow> config \<Rightarrow> platform \<Rightarrow> string \<Rightarrow> string \<Rightarrow> string option \<Rightarrow> world
     \<Rightarrow> (bool \<times> world) option" where
  "process_file 0 cfg pf source root prev_root w = None"
| "process_file (Suc n) cfg pf source root prev_root w =
     (case lstat source w of
        (None, w1) \<Rightarrow> Some (False, w1)
      | (Some source_stat, w1) \<Rightarrow>
          if excluded cfg pf source then Some (True, w1)
          else
            (let dest = join_path root source;
                 prev_dest = map_option (\<lambda>p. join_path p source) prev_root
             in
             if S_ISDIR (st_mode source_stat) then
               (let saved_umask = cmask w1;
                    w2 = w1\<lparr>cmask := 0\<rparr>;
                    source_stat = source_stat\<lparr>st_mode := st_mode source_stat OR S_IRWXU\<rparr>;
                    m = st_mode source_stat
                in case rmkdir n dest m w2 of
                     None \<Rightarrow> None
                   | Some (rc, w3) \<Rightarrow>
                       (let w4 = w3\<lparr>cmask := saved_umask\<rparr> in
                        if rc < 0 then Some (False, w4)
                        else
                          (case opendir source w4 of
                             (None, w5) \<Rightarrow> Some (False, w5)
                           | (Some names, w5) \<Rightarrow>
                               (case dir_loop (\<lambda>s. process_file n cfg pf s root prev_root)
                                       source names True w5 of
                                  None \<Rightarrow> None
                                | Some (result, w6) \<Rightarrow>
                                    if \<not> result then Some (False, w6)
                                    else
                                      (case chmod dest (st_mode source_stat AND NOT saved_umask) w6 of
                                         (None, w7) \<Rightarrow> Some (False, w7)
                                       | (Some u, w7) \<Rightarrow>
                                           (let (r, s', w8) = copy_time dest source_stat w7
                                            in Some (r, w8)))))))
             else if S_ISREG (st_mode source_stat) then
               (let w2 = (if count_bytes cfg
                          then w1\<lparr>total_bytes := total_bytes w1 + st_size source_stat\<rparr>
                          else w1);
                    fresh_copy = (\<lambda>w3.
                      case copy_file pf source dest source_stat w3 of
                        None \<Rightarrow> None
                      | Some (r1, w4) \<Rightarrow>
                          (let (r2, w5) =
                                 (if r1
                                  then (let (r, s', w') = copy_time dest source_stat w4
                                        in (r, w'))
                                  else (False, w4));
                               w6 = (if count_bytes cfg
                                     then w5\<lparr>bytes_copied :=
                                              bytes_copied w5 + st_size source_stat\<rparr>
                                     else w5)
                           in Some (r2, w6)))
                in case prev_dest of
                     None \<Rightarrow> fresh_copy w2
                   | Some pd \<Rightarrow>
                       if force_copy cfg then fresh_copy w2
                       else (case stat pd w2 of
                               (None, w3) \<Rightarrow> fresh_copy w3
                             | (Some prev_stat, w3) \<Rightarrow>
                                 if st_mtime source_stat \<noteq> st_mtime prev_stat
                                 then fresh_copy w3
                                 else Some (symlink_file pd dest w3)))
             else if S_ISBLK (st_mode source_stat) \<or> S_ISCHR (st_mode source_stat)
                     \<or> S_ISSOCK (st_mode source_stat) \<or> S_ISFIFO (st_mode source_stat)
                     \<or> S_ISLNK (st_mode source_stat) then
               (if S_ISFIFO (st_mode source_stat) then
                  (let (r, w2) = mkfifo dest (st_mode source_stat) w1 in Some (r \<noteq> None, w2))
                else if S_ISLNK (st_mode source_stat) then
                  (case readlink source PATH_MAX w1 of
                     (None, w2) \<Rightarrow> Some (False, w2)
                   | (Some buffer, w2) \<Rightarrow>
                       (case symlink buffer dest w2 of
                          (None, w3) \<Rightarrow> Some (False, w3)
                        | (Some u, w3) \<Rightarrow>
                            (case lchown dest (st_uid source_stat) (st_gid source_stat) w3 of
                               (None, w4) \<Rightarrow> Some (False, w4)
                             | (Some u', w4) \<Rightarrow> Some (True, w4))))
                else
                  (let (r, w2) = mknod dest (st_mode source_stat) (st_rdev source_stat) w1
                   in Some (r \<noteq> None, w2)))
             else Some (False, w1)))"

section \<open>Notions of the specification\<close>

text \<open>
  The instant of a child of the backup root that counts as a snapshot, in the words of
  the specification: the name is not a pseudo-entry and a strict parse against the date
  format consumes all of it.
\<close>

definition candidate :: "platform \<Rightarrow> config \<Rightarrow> string \<Rightarrow> int option" where
  "candidate pf cfg name =
     (if ignore_dir name then None
      else (case strptime pf name (date_format cfg) of
              None \<Rightarrow> None
            | Some (t, res) \<Rightarrow> if res = [] then Some (mktime pf t) else None))"

text \<open>
  The condition under which the specification asks for a fresh copy of a regular file:
  no previous root, or a forced full backup, or a counterpart that cannot be examined,
  or a counterpart with another modification time. The world is the one in which the
  counterpart is examined.
\<close>

definition fresh_copy_needed :: "config \<Rightarrow> string option \<Rightarrow> stat \<Rightarrow> world \<Rightarrow> bool" where
  "fresh_copy_needed cfg prev_dest st w =
     (case prev_dest of
        None \<Rightarrow> True
      | Some pd \<Rightarrow>
          force_copy cfg \<or> fst (stat pd w) = None
            \<or> map_option st_mtime (fst (stat pd w)) \<noteq> Some (st_mtime st))"

text \<open>The world after that examination, which is made only when it is needed.\<close>

definition after_comparison :: "config \<Rightarrow> string option \<Rightarrow> world \<Rightarrow> world" where
  "after_comparison cfg prev_dest w =
     (case prev_dest of
        None \<Rightarrow> w
      | Some pd \<Rightarrow> if force_copy cfg then w else snd (stat pd w))"

text \<open>
  A fresh copy: \<^verbatim>\<open>copy_file\<close> and, when it returned true, \<^verbatim>\<open>copy_time\<close>. Where
  \<^verbatim>\<open>copy_file\<close> does not return, neither does the copy.
\<close>

definition copy_and_restore ::
  "platform \<Rightarrow> string \<Rightarrow> string \<Rightarrow> stat \<Rightarrow> world \<Rightarrow> (bool \<times> world) option" where
  "copy_and_restore pf source dest st w =
     (case copy_file pf source dest st w of
        None \<Rightarrow> None
      | Some (False, w') \<Rightarrow> Some (False, w')
      | Some (True, w') \<Rightarrow> (case copy_time dest st w' of (r, s', w'') \<Rightarrow> Some (r, w'')))"

text \<open>
  The paths of the store, and the relation of a world to a later one of the same run:
  they differ at most in the store and the log, every path of the earlier store is a
  path of the later one, and the later log continues the earlier one.
\<close>

definition paths :: "world \<Rightarrow> string set" where
  "paths w = fst ` set (files w)"

definition store_grows :: "world \<Rightarrow> world \<Rightarrow> bool" where
  "store_grows w w' =
     (w' = w\<lparr>files := files w', trace := trace w'\<rparr> \<and> paths w \<subseteq> paths w'
      \<and> (\<exists>evs. trace w' = trace w @ evs))"

text \<open>
  Consecutive generations of one unchanged file: each run links its destination to the
  destination of the run before, by \<^verbatim>\<open>symlink_file\<close> (what \<^verbatim>\<open>process_file\<close> does with a
  regular file whose counterpart has the same modification time). The run stops at the
  first generation that fails.
\<close>

fun link_generations :: "string \<Rightarrow> string list \<Rightarrow> world \<Rightarrow> bool \<times> world" where
  "link_generations prev [] w = (True, w)"
| "link_generations prev (dest # dests) w =
     (case symlink_file prev dest w of
        (False, w') \<Rightarrow> (False, w')
      | (True, w') \<Rightarrow> link_generations dest dests w')"

text \<open>
  The number of symbolic links passed when a path is followed, up to a bound: the length
  of its link chain.
\<close>

fun link_depth :: "nat \<Rightarrow> files \<Rightarrow> string \<Rightarrow> nat" where
  "link_depth 0 fs p = 0"
| "link_depth (Suc k) fs p =
     (case map_of fs p of
        None \<Rightarrow> 0
      | Some n \<Rightarrow>
          if S_ISLNK (st_mode (meta n))
          then Suc (link_depth k fs (link_target_path p (content n)))
          else 0)"

definition absolute_path :: "string \<Rightarrow> bool" where
  "absolute_path p = (case p of [] \<Rightarrow> False | c # cs \<Rightarrow> c = CHR ''/'')"

section \<open>A reference platform\<close>

text \<open>
  The general theorems hold for every \<open>platform\<close>. The examples run on this one: an LP64
  Linux with the time zone UTC. \<open>strptime_c\<close> follows the C library for the conversions
  of the default date format (\<^verbatim>\<open>%m %d %y %H %M %S\<close>, and \<^verbatim>\<open>%Y\<close>), for literal
  characters and for white space; other conversions are not modelled and fail. Fields
  that no conversion sets are 0 here (in the source they are whatever the uninitialised
  \<^verbatim>\<open>struct tm\<close> of line 176 holds).
\<close>

definition is_digit :: "char \<Rightarrow> bool" where
  "is_digit c = (48 \<le> (of_char c :: nat) \<and> (of_char c :: nat) \<le> 57)"

definition digit_val :: "char \<Rightarrow> int" where
  "digit_val c = int (of_char c) - 48"

definition is_space :: "char \<Rightarrow> bool" where
  "is_space c = ((of_char c :: nat) = 32 \<or> (9 \<le> (of_char c :: nat) \<and> (of_char c :: nat) \<le> 13))"

fun more_digits :: "nat \<Rightarrow> int \<Rightarrow> int \<Rightarrow> string \<Rightarrow> int \<times> string" where
  "more_digits k hi v [] = (v, [])"
| "more_digits k hi v (c # cs) =
     (if 0 < k \<and> v * 10 \<le> hi \<and> is_digit c
      then more_digits (k - 1) hi (v * 10 + digit_val c) cs
      else (v, c # cs))"

definition get_number :: "int \<Rightarrow> int \<Rightarrow> nat \<Rightarrow> string \<Rightarrow> (int \<times> string) option" where
  "get_number lo hi k rp =
     (case dropWhile is_space rp of
        [] \<Rightarrow> None
      | c # cs \<Rightarrow>
          if \<not> is_digit c then None
          else (let (v, rest) = more_digits (k - 1) hi (digit_val c) cs
                in if v < lo \<or> hi < v then None else Some (v, rest)))"

definition conversion :: "char \<Rightarrow> string \<Rightarrow> tm \<Rightarrow> (tm \<times> string) option" where
  "conversion spec rp t =
     (if spec = CHR ''d'' \<or> spec = CHR ''e''
      then map_option (\<lambda>(v, r). (t\<lparr>tm_mday := v\<rparr>, r)) (get_number 1 31 2 rp)
      else if spec = CHR ''H''
      then map_option (\<lambda>(v, r). (t\<lparr>tm_hour := v\<rparr>, r)) (get_number 0 23 2 rp)
      else if spec = CHR ''m''
      then map_option (\<lambda>(v, r). (t\<lparr>tm_mon := v - 1\<rparr>, r)) (get_number 1 12 2 rp)
      else if spec = CHR ''M''
      then map_option (\<lambda>(v, r). (t\<lparr>tm_min := v\<rparr>, r)) (get_number 0 59 2 rp)
      else if spec = CHR ''S''
      then map_option (\<lambda>(v, r). (t\<lparr>tm_sec := v\<rparr>, r)) (get_number 0 61 2 rp)
      else if spec = CHR ''y''
      then map_option (\<lambda>(v, r). (t\<lparr>tm_year := (if 69 \<le> v then v else v + 100)\<rparr>, r))
             (get_number 0 99 2 rp)
      else if spec = CHR ''Y''
      then map_option (\<lambda>(v, r). (t\<lparr>tm_year := v - 1900\<rparr>, r)) (get_number 0 9999 4 rp)
      else None)"

fun strptime_loop :: "string \<Rightarrow> string \<Rightarrow> tm \<Rightarrow> (tm \<times> string) option" where
  "strptime_loop [] rp t = Some (t, rp)"
| "strptime_loop [f] rp t =
     (if is_space f then Some (t, dropWhile is_space rp)
      else if f = CHR ''%'' then None
      else (case rp of [] \<Rightarrow> None | c # cs \<Rightarrow> if c = f then Some (t, cs) else None))"
| "strptime_loop (f # spec # fs) rp t =
     (if is_space f then strptime_loop (spec # fs) (dropWhile is_space rp) t
      else if f = CHR ''%''
      then (case conversion spec rp t of
              None \<Rightarrow> None
            | Some (t', rp') \<Rightarrow> strptime_loop fs rp' t')
      else (case rp of
              [] \<Rightarrow> None
            | c # cs \<Rightarrow> if c = f then strptime_loop (spec # fs) cs t else None))"

definition strptime_c :: "string \<Rightarrow> string \<Rightarrow> (tm \<times> string) option" where
  "strptime_c s fmt =
     strptime_loop fmt s
       \<lparr>tm_sec = 0, tm_min = 0, tm_hour = 0, tm_mday = 0, tm_mon = 0, tm_year = 0,
        tm_isdst = 0\<rparr>"

text \<open>Days from 1970-01-01 to a date of the proleptic Gregorian calendar.\<close>

definition days_from_civil :: "int \<Rightarrow> int \<Rightarrow> int \<Rightarrow> int" where
  "days_from_civil y m d =
     (let y' = (if m \<le> 2 then y - 1 else y);
          era = y' div 400;
          yoe = y' - era * 400;
          doy = (153 * (if 2 < m then m - 3 else m + 9) + 2) div 5 + d - 1;
          doe = yoe * 365 + yoe div 4 - yoe div 100 + doy
      in era * 146097 + doe - 719468)"

definition mktime_utc :: "tm \<Rightarrow> int" where
  "mktime_utc t =
     days_from_civil (tm_year t + 1900) (tm_mon t + 1) (tm_mday t) * 86400
       + tm_hour t * 3600 + tm_min t * 60 + tm_sec t"

text \<open>
  \<^verbatim>\<open>fnmatch\<close> with no flags: \<^verbatim>\<open>*\<close> and \<^verbatim>\<open>?\<close> also match a slash. Bracket expressions and
  escapes are not modelled. The result is 0 for a match and \<^verbatim>\<open>FNM_NOMATCH\<close> (1) otherwise.
\<close>

fun glob :: "string \<Rightarrow> string \<Rightarrow> bool" where
  "glob [] [] = True"
| "glob [] (c # cs) = False"
| "glob (p # ps) [] = (p = CHR ''*'' \<and> glob ps [])"
| "glob (p # ps) (c # cs) =
     (if p = CHR ''*'' then glob ps (c # cs) \<or> glob (p # ps) cs
      else (p = CHR ''?'' \<or> p = c) \<and> glob ps cs)"

definition fnmatch_c :: "string \<Rightarrow> string \<Rightarrow> int \<Rightarrow> int" where
  "fnmatch_c pat s flags = (if glob pat s then 0 else 1)"

definition linux_utc :: platform where
  "linux_utc = \<lparr>sizeof_char_ptr = 8, strptime = strptime_c, mktime = mktime_utc,
                fnmatch = fnmatch_c\<rparr>"

text \<open>The options of a run with no command-line option but the one given.\<close>

definition default_config :: config where
  "default_config = \<lparr>verbose = False, force_copy = False, count_bytes = False,
                     date_format = ''%m-%d-%y-%H-%M-%S'', exclude_pattern = None\<rparr>"

text \<open>A node with the given mode, owner, times and bytes, and a world of such nodes.\<close>

definition mknode :: "mode_t \<Rightarrow> nat \<Rightarrow> int \<Rightarrow> string \<Rightarrow> node" where
  "mknode m uid t bytes =
     \<lparr>meta = \<lparr>st_mode = m, st_uid = uid, st_gid = uid, st_rdev = 0, st_size = 0,
              st_blksize = 4096, st_atime = t, st_mtime = t\<rparr>,
      content = bytes\<rparr>"

definition mkworld :: "files \<Rightarrow> (nat \<Rightarrow> syscall \<Rightarrow> bool) \<Rightarrow> world" where
  "mkworld fs flt =
     \<lparr>files = fs, cmask = 0x12, euid = 0, egid = 0, now = 1000000000, total_bytes = 0,
      bytes_copied = 0, trace = [], faults = flt\<rparr>"

section \<open>Example worlds\<close>

text \<open>Concrete inputs on which the theorems below are instantiated.\<close>

definition suid_stat :: stat where
  "suid_stat = \<lparr>st_mode = 0x8DED, st_uid = 1000, st_gid = 1000, st_rdev = 0, st_size = 1,
                 st_blksize = 4096, st_atime = 7, st_mtime = 7\<rparr>"

definition chown_refused :: world where
  "chown_refused =
     mkworld [(''/'', mknode 0x41ED 0 1 []), (''/f'', mknode 0x81ED 0 9 ''x'')]
       (\<lambda>i c. case c of Sys_chown p u g \<Rightarrow> True | _ \<Rightarrow> False)"

definition skip_tmp :: config where
  "skip_tmp = default_config\<lparr>exclude_pattern := Some ''/s/t*''\<rparr>"

definition tmp_tree :: world where
  "tmp_tree =
     mkworld [(''/'', mknode 0x41ED 0 1 []), (''/s'', mknode 0x41ED 0 1 []),
              (''/s/tmp'', mknode 0x41ED 0 1 []), (''/s/tmp/x'', mknode 0x81A4 0 1 ''x''),
              (''/b'', mknode 0x41ED 0 1 [])]
       (\<lambda>i c. False)"

definition epoch_only :: world where
  "epoch_only =
     mkworld [(''/'', mknode 0x41ED 0 1 []), (''/b'', mknode 0x41ED 0 1 []),
              (''/b/01-01-70-00-00-00'', mknode 0x41ED 0 1 [])]
       (\<lambda>i c. False)"

definition year_1969 :: world where
  "year_1969 =
     mkworld [(''/'', mknode 0x41ED 0 1 []), (''/b'', mknode 0x41ED 0 1 []),
              (''/b/01-01-69-00-00-00'', mknode 0x41ED 0 1 [])]
       (\<lambda>i c. False)"

definition two_runs :: world where
  "two_runs =
     mkworld [(''/'', mknode 0x41ED 0 1 []), (''/b'', mknode 0x41ED 0 1 []),
              (''/b/11-02-26-10-00-00'', mknode 0x41ED 0 1 []),
              (''/b/notes'', mknode 0x41ED 0 1 []),
              (''/b/10-01-26-10-00-00'', mknode 0x41ED 0 1 [])]
       (\<lambda>i c. False)"

definition count_config :: config where
  "count_config = default_config\<lparr>count_bytes := True\<rparr>"

definition second_run :: world where
  "second_run =
     mkworld [(''/'', mknode 0x41ED 0 1 []), (''/s'', mknode 0x41ED 0 1 []),
              (''/s/a'', mknode 0x81A4 0 7 ''hello''),
              (''/b1'', mknode 0x41ED 0 1 []), (''/b1/s'', mknode 0x41ED 0 1 []),
              (''/b1/s/a'', mknode 0x81A4 0 7 ''hello''),
              (''/b2'', mknode 0x41ED 0 1 []), (''/b2/s'', mknode 0x41ED 0 1 [])]
       (\<lambda>i c. False)"

definition link_source :: "(nat \<Rightarrow> syscall \<Rightarrow> bool) \<Rightarrow> world" where
  "link_source flt =
     mkworld [(''/'', mknode 0x41ED 0 1 []), (''/s'', mknode 0x41ED 0 1 []),
              (''/s/l'', mknode 0xA1FF 1000 7 ''t''),
              (''/b'', mknode 0x41ED 0 1 []), (''/b/s'', mknode 0x41ED 0 1 [])]
       flt"

definition lchown_refused :: "nat \<Rightarrow> syscall \<Rightarrow> bool" where
  "lchown_refused i c = (case c of Sys_lchown p u g \<Rightarrow> True | _ \<Rightarrow> False)"

definition twenty_bytes :: world where
  "twenty_bytes =
     mkworld [(''/'', mknode 0x41ED 0 1 []), (''/s'', mknode 0x41ED 0 1 []),
              (''/s/a'', mknode 0x81A4 0 7 ''0123456789abcdefghij''),
              (''/b'', mknode 0x41ED 0 1 []), (''/b/s'', mknode 0x41ED 0 1 [])]
       (\<lambda>i c. False)"

definition read_only_dir :: world where
  "read_only_dir =
     mkworld [(''/'', mknode 0x41ED 0 1 []), (''/s'', mknode 0x416D 0 5 []),
              (''/b'', mknode 0x41ED 0 1 [])]
       (\<lambda>i c. False)"

definition first_run_done :: world where
  "first_run_done =
     mkworld [(''/'', mknode 0x41ED 0 1 []), (''/b'', mknode 0x41ED 0 1 []),
              (''/b/r0'', mknode 0x41ED 0 1 []), (''/b/r0/a'', mknode 0x81A4 0 7 ''hello''),
              (''/b/r1'', mknode 0x41ED 0 1 []), (''/b/r2'', mknode 0x41ED 0 1 []),
              (''/b/r3'', mknode 0x41ED 0 1 [])]
       (\<lambda>i c. False)"

definition odd_child :: world where
  "odd_child =
     mkworld [(''/'', mknode 0x41ED 0 1 []), (''/s'', mknode 0x41ED 0 1 []),
              (''/s/a'', mknode 0x11A4 0 7 []), (''/s/bad'', mknode 0x01A4 0 7 []),
              (''/s/c'', mknode 0x81A4 0 7 ''y''), (''/b'', mknode 0x41ED 0 1 [])]
       (\<lambda>i c. False)"

definition symlink_refused :: "nat \<Rightarrow> syscall \<Rightarrow> bool" where
  "symlink_refused i c = (case c of Sys_symlink t p \<Rightarrow> True | _ \<Rightarrow> False)"

definition write_refused :: "nat \<Rightarrow> syscall \<Rightarrow> bool" where
  "write_refused i c = (case c of Sys_write q k \<Rightarrow> True | _ \<Rightarrow> False)"

definition linked_counterpart :: world where
  "linked_counterpart =
     mkworld [(''/'', mknode 0x41ED 0 1 []), (''/s'', mknode 0x41ED 0 1 []),
              (''/s/a'', mknode 0x81A4 0 7 ''hello''),
              (''/b0'', mknode 0x41ED 0 1 []), (''/b0/s'', mknode 0x41ED 0 1 []),
              (''/b0/s/a'', mknode 0x81A4 0 7 ''hello''),
              (''/b1'', mknode 0x41ED 0 1 []), (''/b1/s'', mknode 0x41ED 0 1 []),
              (''/b1/s/a'', mknode 0xA1FF 0 9 ''/b0/s/a''),
              (''/b2'', mknode 0x41ED 0 1 []), (''/b2/s'', mknode 0x41ED 0 1 [])]
       (\<lambda>i c. False)"

definition chained_counterpart :: world where
  "chained_counterpart =
     mkworld [(''/'', mknode 0x41ED 0 1 []), (''/real'', mknode 0x81A4 0 7 ''hello''),
              (''/m'', mknode 0xA1FF 0 3 ''/real''),
              (''/s'', mknode 0x41ED 0 1 []), (''/s/a'', mknode 0x81A4 0 7 ''hello''),
              (''/b'', mknode 0x41ED 0 1 []),
              (''/b/r0'', mknode 0x41ED 0 1 []), (''/b/r0/s'', mknode 0x41ED 0 1 []),
              (''/b/r0/s/a'', mknode 0xA1FF 0 5 ''/m''),
              (''/b/r1'', mknode 0x41ED 0 1 []), (''/b/r1/s'', mknode 0x41ED 0 1 [])]
       (\<lambda>i c. False)"

definition relative_roots :: world where
  "relative_roots =
     mkworld [(''/'', mknode 0x41ED 0 1 []), (''/x'', mknode 0x81A4 0 7 ''hello''),
              (''a'', mknode 0x81A4 0 7 ''hello''),
              (''b'', mknode 0x41ED 0 1 []),
              (''b/r0'', mknode 0x41ED 0 1 []), (''b/r0/a'', mknode 0x81A4 0 7 ''hello''),
              (''b/r1'', mknode 0x41ED 0 1 []), (''b/r1/b'', mknode 0x41ED 0 1 []),
              (''b/r1/b/r0'', mknode 0x41ED 0 1 []),
              (''b/r1/b/r0/a'', mknode 0xA1FF 0 5 ''/x'')]
       (\<lambda>i c. False)"

section \<open>Facts about the system calls\<close>

text \<open>
  The equations of \<^verbatim>\<open>process_file\<close> are large: they are unfolded only where a proof
  asks for them.
\<close>

declare process_file.simps [simp del]

lemma trace_sys_call:
  "trace (snd (sys_call c sem w)) = trace w @ [(c, fst (sys_call c sem w) \<noteq> None)]"
  by (simp add: sys_call_def log_call_def split: option.splits prod.splits)

lemma sys_call_readonly:
  assumes "\<And>a fs. sem w = Some (a, fs) \<Longrightarrow> fs = files w"
  shows "snd (sys_call c sem w) = log_call c (fst (sys_call c sem w) \<noteq> None) w"
  using assms by (auto simp: sys_call_def split: option.splits)

lemma lstat_world: "snd (lstat p w) = log_call (Sys_lstat p) (fst (lstat p w) \<noteq> None) w"
  unfolding lstat_def by (rule sys_call_readonly) (auto split: if_splits)

lemma stat_world: "snd (stat p w) = log_call (Sys_stat p) (fst (stat p w) \<noteq> None) w"
  unfolding stat_def by (rule sys_call_readonly) (auto split: if_splits)

lemma readlink_world:
  "snd (readlink p k w) = log_call (Sys_readlink p k) (fst (readlink p k w) \<noteq> None) w"
  unfolding readlink_def by (rule sys_call_readonly) (auto split: if_splits option.splits)

lemma utime_trace:
  "trace (snd (utime p a m w)) = trace w @ [(Sys_utime p a m, fst (utime p a m w) \<noteq> None)]"
  by (simp add: utime_def trace_sys_call)

lemma chown_trace:
  "trace (snd (chown p u g w)) = trace w @ [(Sys_chown p u g, fst (chown p u g w) \<noteq> None)]"
  by (simp add: chown_def trace_sys_call)

lemma chmod_trace:
  "trace (snd (chmod p m w)) = trace w @ [(Sys_chmod p m, fst (chmod p m w) \<noteq> None)]"
  by (simp add: chmod_def trace_sys_call)

section \<open>Restoring metadata\<close>

text \<open>
  Claim C4. \<^verbatim>\<open>copy_time\<close> always makes its three calls, in the order \<^verbatim>\<open>utime\<close>,
  \<^verbatim>\<open>chown\<close>, \<^verbatim>\<open>chmod\<close>, whatever the outcome of the earlier ones: they are exactly what
  it adds to the log. It returns true if and only if all three succeeded. When \<^verbatim>\<open>chown\<close>
  failed, the mode handed to \<^verbatim>\<open>chmod\<close> is the mode with the set-user-id and set-group-id
  bits cleared; otherwise it is the mode unchanged.
\<close>

theorem copy_time_attempts_all:
  "\<exists>ok1 ok2 ok3.
     trace (snd (snd (copy_time file s w))) =
       trace w @ [(Sys_utime file (st_atime s) (st_mtime s), ok1),
                  (Sys_chown file (st_uid s) (st_gid s), ok2),
                  (Sys_chmod file (if ok2 then st_mode s
                                   else st_mode s AND NOT (S_ISUID OR S_ISGID)), ok3)]
     \<and> fst (copy_time file s w) = (ok1 \<and> ok2 \<and> ok3)"
proof -
  obtain r1 w1 where u: "utime file (st_atime s) (st_mtime s) w = (r1, w1)"
    by (cases "utime file (st_atime s) (st_mtime s) w")
  obtain r2 w2 where c: "chown file (st_uid s) (st_gid s) w1 = (r2, w2)"
    by (cases "chown file (st_uid s) (st_gid s) w1")
  define m where "m = (if r2 \<noteq> None then st_mode s else st_mode s AND NOT (S_ISUID OR S_ISGID))"
  obtain r3 w3 where h: "chmod file m w2 = (r3, w3)"
    by (cases "chmod file m w2")
  have t1: "trace w1 = trace w @ [(Sys_utime file (st_atime s) (st_mtime s), r1 \<noteq> None)]"
    using utime_trace [of "file" "st_atime s" "st_mtime s" w] u by simp
  have t2: "trace w2 = trace w1 @ [(Sys_chown file (st_uid s) (st_gid s), r2 \<noteq> None)]"
    using chown_trace [of "file" "st_uid s" "st_gid s" w1] c by simp
  have t3: "trace w3 = trace w2 @ [(Sys_chmod file m, r3 \<noteq> None)]"
    using chmod_trace [of "file" m w2] h by simp
  have res: "copy_time file s w =
      (r1 \<noteq> None \<and> r2 \<noteq> None \<and> r3 \<noteq> None,
       (if r2 = None then s\<lparr>st_mode := st_mode s AND NOT (S_ISUID OR S_ISGID)\<rparr> else s), w3)"
    using u c h by (auto simp: copy_time_def m_def)
  show ?thesis
    apply (rule exI [of _ "r1 \<noteq> None"], rule exI [of _ "r2 \<noteq> None"], rule exI [of _ "r3 \<noteq> None"])
    using res t1 t2 t3 by (simp add: m_def)
qed

text \<open>
  On a set-user-id, set-group-id file whose \<^verbatim>\<open>chown\<close> is refused: the three calls are
  made, \<^verbatim>\<open>chmod\<close> gets 0100755 for 0106755, and the result is false.
\<close>

theorem copy_time_attempts_all_witness:
  "\<exists>ok1 ok3.
     trace (snd (snd (copy_time ''/f'' suid_stat chown_refused))) =
       [(Sys_utime ''/f'' 7 7, ok1), (Sys_chown ''/f'' 1000 1000, False),
        (Sys_chmod ''/f'' 0x81ED, ok3)]
     \<and> \<not> fst (copy_time ''/f'' suid_stat chown_refused)"
proof -
  obtain ok1 ok2 ok3 where
    t: "trace (snd (snd (copy_time ''/f'' suid_stat chown_refused))) =
          trace chown_refused @
            [(Sys_utime ''/f'' (st_atime suid_stat) (st_mtime suid_stat), ok1),
             (Sys_chown ''/f'' (st_uid suid_stat) (st_gid suid_stat), ok2),
             (Sys_chmod ''/f'' (if ok2 then st_mode suid_stat
                                else st_mode suid_stat AND NOT (S_ISUID OR S_ISGID)), ok3)]"
    and r: "fst (copy_time ''/f'' suid_stat chown_refused) = (ok1 \<and> ok2 \<and> ok3)"
    using copy_time_attempts_all [of "''/f''" suid_stat chown_refused] by blast
  have "\<not> snd (trace (snd (snd (copy_time ''/f'' suid_stat chown_refused))) ! 1)"
    by code_simp
  then have "\<not> ok2"
    using t by (simp add: chown_refused_def mkworld_def)
  then show ?thesis
    using t r
    by (simp add: chown_refused_def mkworld_def suid_stat_def S_ISUID_def S_ISGID_def)
qed

section \<open>The walk: excluded entries\<close>

text \<open>
  Claim C7. A source entry (one that \<^verbatim>\<open>lstat\<close> can examine) whose path matches the
  exclusion pattern is processed with success, at any positive depth bound, and the run
  does nothing but that one \<^verbatim>\<open>lstat\<close>: the world afterwards is the world before with
  the call logged. So nothing is created at the destination, and for a directory no
  entry below it is read or visited.
\<close>

theorem process_file_excluded:
  assumes "fst (lstat source w) \<noteq> None"
      and "exclude_pattern cfg = Some pat"
      and "fnmatch pf pat source 0 = 0"
  shows "process_file (Suc n) cfg pf source root prev_root w =
           Some (True, log_call (Sys_lstat source) True w)"
proof -
  obtain st w1 where l: "lstat source w = (Some st, w1)"
    using assms(1) by (cases "lstat source w") auto
  have "w1 = log_call (Sys_lstat source) True w"
    using lstat_world [of source w] l by simp
  moreover have "excluded cfg pf source"
    using assms(2,3) by (simp add: excluded_def)
  ultimately show ?thesis
    using l by (simp add: process_file.simps)
qed

text \<open>The directory \<^verbatim>\<open>/s/tmp\<close>, which holds a file, under the pattern \<^verbatim>\<open>/s/t*\<close>.\<close>

theorem process_file_excluded_witness:
  "process_file (Suc 0) skip_tmp linux_utc ''/s/tmp'' ''/b'' None tmp_tree =
     Some (True, tmp_tree\<lparr>trace := [(Sys_lstat ''/s/tmp'', True)]\<rparr>)"
proof -
  have h1: "fst (lstat ''/s/tmp'' tmp_tree) \<noteq> None"
    by code_simp
  have h2: "exclude_pattern skip_tmp = Some ''/s/t*''"
    by (simp add: skip_tmp_def)
  have h3: "fnmatch linux_utc ''/s/t*'' ''/s/tmp'' 0 = 0"
    by code_simp
  show ?thesis
    using process_file_excluded [OF h1 h2 h3, of 0 "''/b''" None]
    by (simp add: log_call_def tmp_tree_def mkworld_def)
qed

section \<open>Locating the previous snapshot\<close>

lemma locate_loop_Cons:
  "locate_loop pf cfg root (name # names) latest result =
     (case candidate pf cfg name of
        None \<Rightarrow> locate_loop pf cfg root names latest result
      | Some current \<Rightarrow>
          if current > latest
          then locate_loop pf cfg root names current (Some (join_path root name))
          else locate_loop pf cfg root names latest result)"
  by (simp add: candidate_def split: option.splits prod.splits)

text \<open>
  The loop either keeps what it started with, and then no name has an instant above the
  starting maximum, or returns a name whose instant is above it and is the greatest.
\<close>

lemma locate_loop_result:
  "(locate_loop pf cfg root names latest result = result
      \<and> (\<forall>name\<in>set names. \<forall>i. candidate pf cfg name = Some i \<longrightarrow> i \<le> latest))
   \<or> (\<exists>name i. name \<in> set names \<and> candidate pf cfg name = Some i \<and> latest < i
         \<and> locate_loop pf cfg root names latest result = Some (join_path root name)
         \<and> (\<forall>name'\<in>set names. \<forall>j. candidate pf cfg name' = Some j \<longrightarrow> j \<le> i))"
  (is "?keeps names latest result \<or> ?finds names latest result")
proof (induction names arbitrary: latest result)
  case Nil
  show ?case by simp
next
  case (Cons a names)
  show ?case
  proof (cases "\<exists>current. candidate pf cfg a = Some current \<and> latest < current")
    case True
    then obtain current where c: "candidate pf cfg a = Some current" "latest < current"
      by blast
    have step: "locate_loop pf cfg root (a # names) latest result =
                  locate_loop pf cfg root names current (Some (join_path root a))"
      unfolding locate_loop_Cons using c by simp
    have "?keeps names current (Some (join_path root a))
          \<or> ?finds names current (Some (join_path root a))"
      by (rule Cons.IH)
    then show ?thesis
    proof
      assume keep: "?keeps names current (Some (join_path root a))"
      have 1: "locate_loop pf cfg root (a # names) latest result = Some (join_path root a)"
        using keep step by simp
      have 2: "\<forall>name'\<in>set (a # names). \<forall>j. candidate pf cfg name' = Some j \<longrightarrow> j \<le> current"
        using keep c(1) by simp
      have "?finds (a # names) latest result"
        apply (rule exI [of _ a], rule exI [of _ current])
        using c 1 2 by simp
      then show ?thesis ..
    next
      assume "?finds names current (Some (join_path root a))"
      then obtain name i where
        n: "name \<in> set names" "candidate pf cfg name = Some i" "current < i"
           "locate_loop pf cfg root names current (Some (join_path root a)) =
              Some (join_path root name)"
           "\<forall>name'\<in>set names. \<forall>j. candidate pf cfg name' = Some j \<longrightarrow> j \<le> i"
        by blast
      have 2: "\<forall>name'\<in>set (a # names). \<forall>j. candidate pf cfg name' = Some j \<longrightarrow> j \<le> i"
        using n(3,5) c(1) by simp
      have "?finds (a # names) latest result"
        apply (rule exI [of _ name], rule exI [of _ i])
        using n(1-4) c(2) step 2 by simp
      then show ?thesis ..
    qed
  next
    case False
    then have le: "\<forall>i. candidate pf cfg a = Some i \<longrightarrow> i \<le> latest"
      by (simp add: not_less)
    have step: "locate_loop pf cfg root (a # names) latest result =
                  locate_loop pf cfg root names latest result"
      unfolding locate_loop_Cons using le by (cases "candidate pf cfg a") auto
    have "?keeps names latest result \<or> ?finds names latest result"
      by (rule Cons.IH)
    then show ?thesis
    proof
      assume keep: "?keeps names latest result"
      have "?keeps (a # names) latest result"
        using keep step le by simp
      then show ?thesis ..
    next
      assume "?finds names latest result"
      then obtain name i where
        n: "name \<in> set names" "candidate pf cfg name = Some i" "latest < i"
           "locate_loop pf cfg root names latest result = Some (join_path root name)"
           "\<forall>name'\<in>set names. \<forall>j. candidate pf cfg name' = Some j \<longrightarrow> j \<le> i"
        by blast
      have "\<forall>j. candidate pf cfg a = Some j \<longrightarrow> j \<le> i"
        using le n(3) by force
      then have 2: "\<forall>name'\<in>set (a # names). \<forall>j. candidate pf cfg name' = Some j \<longrightarrow> j \<le> i"
        using n(5) by simp
      have "?finds (a # names) latest result"
        apply (rule exI [of _ name], rule exI [of _ i])
        using n(1-4) step 2 by simp
      then show ?thesis ..
    qed
  qed
qed

lemma locate_previous_unreadable:
  "fst (opendir root w) = None \<Longrightarrow> fst (locate_previous pf cfg root w) = None"
  by (cases "opendir root w") (simp add: locate_previous_def)

lemma locate_previous_readable:
  "fst (opendir root w) = Some names \<Longrightarrow>
     fst (locate_previous pf cfg root w) = locate_loop pf cfg root names 0 None"
  by (cases "opendir root w") (simp add: locate_previous_def)

text \<open>
  Claim C10. The running maximum starts at 0 and is replaced only by a strictly greater
  instant. So whatever \<^verbatim>\<open>locate_previous\<close> returns is a child of the root whose name
  parses completely to an instant strictly after the epoch; and when every child that
  parses completely has an instant at or before the epoch, it returns none, also when
  such a child is the only validly named one.
\<close>

theorem locate_previous_after_epoch:
  "(\<forall>p. fst (locate_previous pf cfg root w) = Some p \<longrightarrow>
        (\<exists>names name i. fst (opendir root w) = Some names \<and> name \<in> set names
            \<and> candidate pf cfg name = Some i \<and> 0 < i \<and> p = join_path root name))
   \<and> (\<forall>names. fst (opendir root w) = Some names
          \<and> (\<forall>name\<in>set names. \<forall>i. candidate pf cfg name = Some i \<longrightarrow> i \<le> 0)
        \<longrightarrow> fst (locate_previous pf cfg root w) = None)"
proof (cases "fst (opendir root w)")
  case None
  then show ?thesis
    using locate_previous_unreadable [where root = root and w = w and pf = pf and cfg = cfg] by simp
next
  case (Some names)
  have r: "fst (locate_previous pf cfg root w) = locate_loop pf cfg root names 0 None"
    using Some by (rule locate_previous_readable)
  from locate_loop_result [where pf = pf and cfg = cfg and root = root and names = names and latest = 0 and result = None] show ?thesis
  proof
    assume "locate_loop pf cfg root names 0 None = None
            \<and> (\<forall>name\<in>set names. \<forall>i. candidate pf cfg name = Some i \<longrightarrow> i \<le> 0)"
    then show ?thesis
      using r Some by simp
  next
    assume "\<exists>name i. name \<in> set names \<and> candidate pf cfg name = Some i \<and> 0 < i
              \<and> locate_loop pf cfg root names 0 None = Some (join_path root name)
              \<and> (\<forall>name'\<in>set names. \<forall>j. candidate pf cfg name' = Some j \<longrightarrow> j \<le> i)"
    then obtain name i where
      n: "name \<in> set names" "candidate pf cfg name = Some i" "0 < i"
         "locate_loop pf cfg root names 0 None = Some (join_path root name)"
      by blast
    have "\<not> (\<forall>name\<in>set names. \<forall>i. candidate pf cfg name = Some i \<longrightarrow> i \<le> 0)"
      using n(1-3) by force
    then show ?thesis
      using r Some n by auto
  qed
qed

text \<open>
  A root whose only child is named for the epoch itself (UTC): the name parses
  completely, to the instant 0, and no previous snapshot is found.
\<close>

theorem locate_previous_after_epoch_witness:
  "candidate linux_utc default_config ''01-01-70-00-00-00'' = Some 0
   \<and> fst (opendir ''/b'' epoch_only) = Some [''.'', ''..'', ''01-01-70-00-00-00'']
   \<and> fst (locate_previous linux_utc default_config ''/b'' epoch_only) = None"
proof -
  have c: "candidate linux_utc default_config ''01-01-70-00-00-00'' = Some 0"
    by code_simp
  have d: "candidate linux_utc default_config ''.'' = None"
          "candidate linux_utc default_config ''..'' = None"
    by code_simp+
  have o: "fst (opendir ''/b'' epoch_only) = Some [''.'', ''..'', ''01-01-70-00-00-00'']"
    by code_simp
  have "\<forall>name\<in>set [''.'', ''..'', ''01-01-70-00-00-00''].
          \<forall>i. candidate linux_utc default_config name = Some i \<longrightarrow> i \<le> 0"
    using c d by simp
  then have "fst (locate_previous linux_utc default_config ''/b'' epoch_only) = None"
    using locate_previous_after_epoch [where pf = linux_utc and cfg = default_config and root = "''/b''" and w = epoch_only] o
    by blast
  then show ?thesis
    using c o by simp
qed

text \<open>
  Claim C6, as amended. An unreadable root gives none. For a readable one, a child is a
  candidate only if the date format parses its whole name; the result is none exactly
  when no candidate has an instant after the epoch, and otherwise it is a candidate whose
  instant is after the epoch and greatest among all candidates.
\<close>

theorem locate_previous_latest:
  "(case fst (opendir root w) of
      None \<Rightarrow> fst (locate_previous pf cfg root w) = None
    | Some names \<Rightarrow>
        (case fst (locate_previous pf cfg root w) of
           None \<Rightarrow> (\<forall>name\<in>set names. \<forall>i. candidate pf cfg name = Some i \<longrightarrow> i \<le> 0)
         | Some p \<Rightarrow>
             (\<exists>name i. name \<in> set names \<and> candidate pf cfg name = Some i \<and> 0 < i
                \<and> p = join_path root name
                \<and> (\<forall>name'\<in>set names. \<forall>j. candidate pf cfg name' = Some j \<longrightarrow> j \<le> i))))"
proof (cases "fst (opendir root w)")
  case None
  then show ?thesis
    using locate_previous_unreadable [where root = root and w = w and pf = pf and cfg = cfg] by simp
next
  case (Some names)
  have r: "fst (locate_previous pf cfg root w) = locate_loop pf cfg root names 0 None"
    using Some by (rule locate_previous_readable)
  from locate_loop_result [where pf = pf and cfg = cfg and root = root and names = names and latest = 0 and result = None] show ?thesis
  proof
    assume "locate_loop pf cfg root names 0 None = None
            \<and> (\<forall>name\<in>set names. \<forall>i. candidate pf cfg name = Some i \<longrightarrow> i \<le> 0)"
    then show ?thesis
      using r Some by simp
  next
    assume "\<exists>name i. name \<in> set names \<and> candidate pf cfg name = Some i \<and> 0 < i
              \<and> locate_loop pf cfg root names 0 None = Some (join_path root name)
              \<and> (\<forall>name'\<in>set names. \<forall>j. candidate pf cfg name' = Some j \<longrightarrow> j \<le> i)"
    then obtain name i where
      n: "name \<in> set names" "candidate pf cfg name = Some i" "0 < i"
         "locate_loop pf cfg root names 0 None = Some (join_path root name)"
         "\<forall>name'\<in>set names. \<forall>j. candidate pf cfg name' = Some j \<longrightarrow> j \<le> i"
      by blast
    have "\<exists>name' i. name' \<in> set names \<and> candidate pf cfg name' = Some i \<and> 0 < i
            \<and> join_path root name = join_path root name'
            \<and> (\<forall>name''\<in>set names. \<forall>j. candidate pf cfg name'' = Some j \<longrightarrow> j \<le> i)"
      using n by blast
    then show ?thesis
      using r Some n(4) by simp
  qed
qed

text \<open>
  The backup root of the specification's scenario: two runs and a directory \<^verbatim>\<open>notes\<close>.
  The later run is found.
\<close>

theorem locate_previous_latest_witness:
  "\<exists>name i. name \<in> set [''.'', ''..'', ''11-02-26-10-00-00'', ''notes'', ''10-01-26-10-00-00'']
     \<and> candidate linux_utc default_config name = Some i \<and> 0 < i
     \<and> ''/b/11-02-26-10-00-00'' = join_path ''/b'' name
     \<and> (\<forall>name'\<in>set [''.'', ''..'', ''11-02-26-10-00-00'', ''notes'', ''10-01-26-10-00-00''].
           \<forall>j. candidate linux_utc default_config name' = Some j \<longrightarrow> j \<le> i)"
proof -
  have o: "fst (opendir ''/b'' two_runs) =
             Some [''.'', ''..'', ''11-02-26-10-00-00'', ''notes'', ''10-01-26-10-00-00'']"
    by code_simp
  have l: "fst (locate_previous linux_utc default_config ''/b'' two_runs) =
             Some ''/b/11-02-26-10-00-00''"
    by code_simp
  show ?thesis
    using locate_previous_latest [where pf = linux_utc and cfg = default_config and root = "''/b''" and w = two_runs]
    unfolding o l by simp
qed

text \<open>
  The claim as first stated fails: a root whose only child is named for the first
  second of 1969 has a candidate (the name parses completely, to a negative instant),
  yet none is returned.
\<close>

theorem locate_previous_latest_counterexample:
  "candidate linux_utc default_config ''01-01-69-00-00-00'' = Some (- 31536000)
   \<and> fst (opendir ''/b'' year_1969) = Some [''.'', ''..'', ''01-01-69-00-00-00'']
   \<and> fst (locate_previous linux_utc default_config ''/b'' year_1969) = None"
  by code_simp

section \<open>What the program leaves unchanged\<close>

text \<open>
  The system calls and the copying functions change nothing of the world but the store
  and the log, and remove no path from the store; in particular they keep the two
  accumulators.
\<close>

lemma store_grows_refl: "store_grows w w"
  by (simp add: store_grows_def)

lemma store_grows_trans:
  assumes "store_grows w w'" and "store_grows w' w''"
  shows "store_grows w w''"
proof -
  have "w' = w\<lparr>files := files w', trace := trace w'\<rparr>"
   and "w'' = w'\<lparr>files := files w'', trace := trace w''\<rparr>"
    using assms by (simp_all add: store_grows_def)
  then have "w'' = w\<lparr>files := files w'', trace := trace w''\<rparr>"
    by (metis (no_types) world.surjective world.update_convs(1,8))
  moreover have "paths w \<subseteq> paths w''"
    using assms by (auto simp: store_grows_def)
  moreover have "\<exists>evs. trace w'' = trace w @ evs"
  proof -
    obtain e1 e2 where "trace w' = trace w @ e1" "trace w'' = trace w' @ e2"
      using assms by (auto simp: store_grows_def)
    then have "trace w'' = trace w @ (e1 @ e2)"
      by simp
    then show ?thesis ..
  qed
  ultimately show ?thesis
    by (simp add: store_grows_def)
qed

lemma store_grows_counters:
  assumes "store_grows w w'"
  shows "bytes_copied w' = bytes_copied w \<and> total_bytes w' = total_bytes w"
proof -
  have "w' = w\<lparr>files := files w', trace := trace w'\<rparr>"
    using assms by (simp add: store_grows_def)
  then show ?thesis
    by (metis (no_types) world.select_convs(6,7) world.surjective world.update_convs(1,8))
qed

lemma store_grows_paths: "store_grows w w' \<Longrightarrow> paths w \<subseteq> paths w'"
  by (simp add: store_grows_def)

lemma store_grows_trace: "store_grows w w' \<Longrightarrow> \<exists>evs. trace w' = trace w @ evs"
  by (simp add: store_grows_def)

lemma sys_call_store_grows:
  assumes "\<And>a fs. sem w = Some (a, fs) \<Longrightarrow> fst ` set (files w) \<subseteq> fst ` set fs"
  shows "store_grows w (snd (sys_call c sem w))"
proof (cases "if faults w (length (trace w)) c then None else sem w")
  case None
  then show ?thesis
    by (simp add: sys_call_def log_call_def store_grows_def paths_def)
next
  case (Some r)
  obtain a fs where r: "r = (a, fs)"
    by (cases r)
  have "sem w = Some (a, fs)"
    using Some r by (simp split: if_splits)
  then have "fst ` set (files w) \<subseteq> fst ` set fs"
    by (rule assms)
  then show ?thesis
    using Some r by (simp add: sys_call_def log_call_def store_grows_def paths_def)
qed

lemma create_paths:
  "create p m dev bytes w = Some fs \<Longrightarrow> fst ` set (files w) \<subseteq> fst ` set fs"
  by (auto simp: create_def split: if_splits)

lemma update_meta_paths: "fst ` set (update_meta q f fs) = fst ` set fs"
  by (simp add: update_meta_def dom_map_entry)

lemma syscalls_store_grows:
  "store_grows w (snd (lstat p w))"
  "store_grows w (snd (stat p w))"
  "store_grows w (snd (utime p a m w))"
  "store_grows w (snd (chown p u g w))"
  "store_grows w (snd (lchown p u g w))"
  "store_grows w (snd (chmod p md w))"
  "store_grows w (snd (mkdir p md w))"
  "store_grows w (snd (mkfifo p md w))"
  "store_grows w (snd (mknod p md dev w))"
  "store_grows w (snd (symlink t p w))"
  "store_grows w (snd (readlink p k w))"
  "store_grows w (snd (opendir p w))"
  "store_grows w (snd (open_rdonly p w))"
  "store_grows w (snd (open_creat p md w))"
  "store_grows w (snd (malloc k w))"
  "store_grows w (snd (read_fd p rest k w))"
  "store_grows w (snd (write_fd p off chunk w))"
  unfolding lstat_def stat_def utime_def chown_def lchown_def chmod_def mkdir_def
    mkfifo_def mknod_def symlink_def readlink_def opendir_def open_rdonly_def
    open_creat_def malloc_def read_fd_def write_fd_def
  by (rule sys_call_store_grows;
      force simp: update_meta_paths dom_map_entry dest!: create_paths
            split: if_splits option.splits prod.splits)+

lemma copy_loop_store_grows: "store_grows w (snd (copy_loop k source rest out off w))"
proof (induction k source rest out off w rule: copy_loop.induct)
  case (1 k source rest out off w)
  obtain r w1 where rd: "read_fd source rest k w = (r, w1)"
    by (cases "read_fd source rest k w")
  have a: "store_grows w w1"
    using syscalls_store_grows(16) [of w source rest k] rd by simp
  show ?case
  proof (cases r)
    case None
    then show ?thesis
      using rd a by (subst copy_loop.simps) simp
  next
    case (Some chunk)
    show ?thesis
    proof (cases "chunk = []")
      case True
      then show ?thesis
        using rd a Some by (subst copy_loop.simps) simp
    next
      case False
      obtain r2 w2 where wr: "write_fd out off chunk w1 = (r2, w2)"
        by (cases "write_fd out off chunk w1")
      have b: "store_grows w1 w2"
        using syscalls_store_grows(17) [of w1 out off chunk] wr by simp
      show ?thesis
      proof (cases r2)
        case None
        then show ?thesis
          using rd Some False wr store_grows_trans [OF a b]
          by (subst copy_loop.simps) simp
      next
        case (Some u)
        have "store_grows w2
                (snd (copy_loop k source (drop (length chunk) rest) out (off + length chunk) w2))"
          using "1.IH" [OF rd [symmetric] _ False wr [symmetric]] \<open>r = Some chunk\<close> Some
          by simp
        then show ?thesis
          using rd \<open>r = Some chunk\<close> False wr Some
            store_grows_trans [OF store_grows_trans [OF a b]]
          by (subst copy_loop.simps) simp
      qed
    qed
  qed
qed

lemma copy_file_store_grows:
  assumes "copy_file pf source dest s w = Some (r, w')"
  shows "store_grows w w'"
proof -
  obtain r1 w1 where o1: "open_rdonly source w = (r1, w1)"
    by (cases "open_rdonly source w")
  obtain r2 w2 where o2: "open_creat dest (st_mode s) w1 = (r2, w2)"
    by (cases "open_creat dest (st_mode s) w1")
  obtain r3 w3 where o3: "malloc (st_blksize s) w2 = (r3, w3)"
    by (cases "malloc (st_blksize s) w2")
  have a: "store_grows w w1"
    using syscalls_store_grows(13) [of w source] o1 by simp
  have b: "store_grows w1 w2"
    using syscalls_store_grows(14) [of w1 dest "st_mode s"] o2 by simp
  have c: "store_grows w2 w3"
    using syscalls_store_grows(15) [of w2 "st_blksize s"] o3 by simp
  note abc = store_grows_trans [OF store_grows_trans [OF a b] c]
  from assms o1 o2 obtain inp out where io: "r1 = Some inp" "r2 = Some out"
    by (auto simp: copy_file_def split: option.splits)
  show ?thesis
  proof (cases r3)
    case None
    then have "w' = w3"
      using assms o1 o2 o3 io by (simp add: copy_file_def)
    then show ?thesis
      using abc by simp
  next
    case (Some buffer)
    then have "w' = snd (copy_loop (sizeof_char_ptr pf) source inp out 0 w3)"
      using assms o1 o2 o3 io by (simp add: copy_file_def prod_eq_iff)
    then show ?thesis
      using store_grows_trans [OF abc copy_loop_store_grows] by simp
  qed
qed

lemma copy_time_store_grows: "store_grows w (snd (snd (copy_time f s w)))"
proof -
  obtain r1 w1 where u: "utime f (st_atime s) (st_mtime s) w = (r1, w1)"
    by (cases "utime f (st_atime s) (st_mtime s) w")
  obtain r2 w2 where c: "chown f (st_uid s) (st_gid s) w1 = (r2, w2)"
    by (cases "chown f (st_uid s) (st_gid s) w1")
  define m where "m = (if r2 = None then st_mode s AND NOT (S_ISUID OR S_ISGID) else st_mode s)"
  obtain r3 w3 where h: "chmod f m w2 = (r3, w3)"
    by (cases "chmod f m w2")
  have 1: "store_grows w w1"
    using syscalls_store_grows(3) [of w f "st_atime s" "st_mtime s"] u by simp
  have 2: "store_grows w1 w2"
    using syscalls_store_grows(4) [of w1 f "st_uid s" "st_gid s"] c by simp
  have 3: "store_grows w2 w3"
    using syscalls_store_grows(6) [of w2 f m] h by simp
  have "snd (snd (copy_time f s w)) = w3"
    using u c h by (auto simp: copy_time_def m_def)
  then show ?thesis
    using store_grows_trans [OF store_grows_trans [OF 1 2] 3] by simp
qed

lemma copy_and_restore_store_grows:
  assumes "copy_and_restore pf source dest s w = Some (r, w')"
  shows "store_grows w w'"
proof -
  obtain r1 w1 where c: "copy_file pf source dest s w = Some (r1, w1)"
    using assms by (auto simp: copy_and_restore_def split: option.splits)
  have a: "store_grows w w1"
    using c by (rule copy_file_store_grows)
  show ?thesis
  proof (cases r1)
    case False
    then show ?thesis
      using assms c a by (simp add: copy_and_restore_def)
  next
    case True
    obtain r2 s' w2 where t: "copy_time dest s w1 = (r2, s', w2)"
      by (cases "copy_time dest s w1")
    have "store_grows w1 w2"
      using copy_time_store_grows [of w1 dest s] t by simp
    then show ?thesis
      using assms c True t store_grows_trans [OF a] by (simp add: copy_and_restore_def)
  qed
qed

lemma symlink_file_store_grows: "store_grows w (snd (symlink_file source dest w))"
proof -
  obtain r1 w1 where l: "lstat source w = (r1, w1)"
    by (cases "lstat source w")
  have a: "store_grows w w1"
    using syscalls_store_grows(1) [of w source] l by simp
  show ?thesis
  proof (cases r1)
    case None
    then show ?thesis
      using l a by (simp add: symlink_file_def)
  next
    case (Some s)
    show ?thesis
    proof (cases "S_ISLNK (st_mode s)")
      case False
      obtain r2 w2 where sl: "symlink source dest w1 = (r2, w2)"
        by (cases "symlink source dest w1")
      have "store_grows w1 w2"
        using syscalls_store_grows(10) [of w1 source dest] sl by simp
      then show ?thesis
        using l Some False sl store_grows_trans [OF a] by (simp add: symlink_file_def)
    next
      case True
      obtain r2 w2 where rl: "readlink source PATH_MAX w1 = (r2, w2)"
        by (cases "readlink source PATH_MAX w1")
      have b: "store_grows w1 w2"
        using syscalls_store_grows(11) [of w1 source PATH_MAX] rl by simp
      show ?thesis
      proof (cases r2)
        case None
        then show ?thesis
          using l Some True rl store_grows_trans [OF a b] by (simp add: symlink_file_def)
      next
        case (Some buffer)
        obtain r3 w3 where sl: "symlink buffer dest w2 = (r3, w3)"
          by (cases "symlink buffer dest w2")
        have "store_grows w2 w3"
          using syscalls_store_grows(10) [of w2 buffer dest] sl by simp
        then show ?thesis
          using l \<open>r1 = Some s\<close> True rl Some sl
            store_grows_trans [OF store_grows_trans [OF a b]]
          by (simp add: symlink_file_def)
      qed
    qed
  qed
qed

section \<open>The walk: regular files\<close>

text \<open>The regular-file branch of \<^verbatim>\<open>process_file\<close>, lines 409--435, on its own.\<close>

lemma process_file_regular_unfold:
  assumes "lstat source w = (Some st, w1)"
      and "\<not> excluded cfg pf source"
      and "S_ISREG (st_mode st)"
      and "w2 = (if count_bytes cfg then w1\<lparr>total_bytes := total_bytes w1 + st_size st\<rparr> else w1)"
  shows "process_file (Suc n) cfg pf source root prev_root w =
           (if fresh_copy_needed cfg (map_option (\<lambda>p. join_path p source) prev_root) st w2
            then map_option
                   (\<lambda>(r, w5). (r, if count_bytes cfg
                                  then w5\<lparr>bytes_copied := bytes_copied w5 + st_size st\<rparr>
                                  else w5))
                   (copy_and_restore pf source (join_path root source) st
                      (after_comparison cfg (map_option (\<lambda>p. join_path p source) prev_root) w2))
            else (case prev_root of
                    None \<Rightarrow> None
                  | Some p \<Rightarrow>
                      Some (symlink_file (join_path p source) (join_path root source)
                              (snd (stat (join_path p source) w2)))))"
proof -
  have nd: "\<not> S_ISDIR (st_mode st)"
    using assms(3) by (auto simp: S_ISDIR_def S_ISREG_def S_IFDIR_def S_IFREG_def)
  show ?thesis
  proof (cases prev_root)
    case None
    then show ?thesis
      using assms nd
      by (auto simp: process_file.simps fresh_copy_needed_def after_comparison_def
                 copy_and_restore_def Let_def
               split: prod.splits bool.splits option.splits)
  next
    case (Some p)
    obtain ps w3 where s: "stat (join_path p source) w2 = (ps, w3)"
      by (cases "stat (join_path p source) w2")
    show ?thesis
      using assms nd Some s
      by (auto simp: process_file.simps fresh_copy_needed_def after_comparison_def
                 copy_and_restore_def Let_def
               split: prod.splits bool.splits option.splits)
  qed
qed

section \<open>Facts about the store\<close>

lemma map_of_update_meta:
  "map_of (update_meta q f fs) p =
     map_option (\<lambda>n. if p = q then n\<lparr>meta := f (meta n)\<rparr> else n) (map_of fs p)"
  by (cases "map_of fs q"; cases "map_of fs p")
     (auto simp: update_meta_def map_of_map_entry)

lemma lstat_Some:
  "fst (lstat p w) = Some st \<Longrightarrow> \<exists>nd. map_of (files w) p = Some nd \<and> st = stat_of nd"
  by (auto simp: lstat_def sys_call_def split: if_splits option.splits)

lemma readlink_Some:
  "fst (readlink p k w) = Some t \<Longrightarrow>
     \<exists>nd. map_of (files w) p = Some nd \<and> t = take k (content nd)"
  by (auto simp: readlink_def sys_call_def split: if_splits option.splits)

lemma create_Some:
  "create p m dev bytes w = Some fs \<Longrightarrow>
     \<exists>nd. fs = files w @ [(p, nd)] \<and> content nd = bytes \<and> st_mode (meta nd) = m
        \<and> map_of (files w) p = None"
  by (auto simp: create_def split: if_splits)

lemma symlink_Some:
  "fst (symlink t p w) = Some u \<Longrightarrow>
     \<exists>nd. files (snd (symlink t p w)) = files w @ [(p, nd)] \<and> content nd = t
        \<and> S_ISLNK (st_mode (meta nd)) \<and> map_of (files w) p = None \<and> valid_path t"
  by (auto simp: symlink_def sys_call_def log_call_def S_ISLNK_def S_IFLNK_def S_IFMT_def
           split: if_splits option.splits dest!: create_Some)

lemma symlink_None: "fst (symlink t p w) = None \<Longrightarrow> files (snd (symlink t p w)) = files w"
  by (auto simp: symlink_def sys_call_def log_call_def split: if_splits option.splits)

lemma lchown_content:
  "map_option content (map_of (files (snd (lchown p u g w))) q) =
     map_option content (map_of (files w) q)"
  by (cases "map_of (files w) q")
     (auto simp: lchown_def sys_call_def log_call_def map_of_update_meta
           split: if_splits option.splits)

lemma syscalls_trace:
  "trace (snd (lstat p w)) = trace w @ [(Sys_lstat p, fst (lstat p w) \<noteq> None)]"
  "trace (snd (stat p w)) = trace w @ [(Sys_stat p, fst (stat p w) \<noteq> None)]"
  "trace (snd (lchown p u g w)) = trace w @ [(Sys_lchown p u g, fst (lchown p u g w) \<noteq> None)]"
  "trace (snd (symlink t p w)) = trace w @ [(Sys_symlink t p, fst (symlink t p w) \<noteq> None)]"
  "trace (snd (readlink p k w)) = trace w @ [(Sys_readlink p k, fst (readlink p k w) \<noteq> None)]"
  by (simp_all add: lstat_def stat_def lchown_def symlink_def readlink_def trace_sys_call)

section \<open>The walk: symbolic links in the source\<close>

text \<open>
  Claim C8, as amended. For a source entry that is itself a symbolic link (not excluded,
  with a target that fits the buffer of \<^verbatim>\<open>PATH_MAX\<close> bytes), the walker reads the
  target once, creates the destination as a link with the very same target, and then
  calls \<^verbatim>\<open>lchown\<close> on the new link, each call only after the one before succeeded. The
  result is true if and only if all three calls succeeded: a failure of the ownership
  call alone makes the processing of the entry fail. The new link stays in place
  whatever \<^verbatim>\<open>lchown\<close> returns.
\<close>

theorem process_file_symlink:
  fixes root :: string
  assumes "fst (lstat source w) = Some st"
      and "\<not> excluded cfg pf source"
      and "S_ISLNK (st_mode st)"
      and "st_size st \<le> int PATH_MAX"
  defines "dest \<equiv> join_path root source"
  shows "\<exists>target ok1 ok2 ok3 w'.
           map_option content (map_of (files w) source) = Some target
         \<and> process_file (Suc n) cfg pf source root prev_root w = Some (ok1 \<and> ok2 \<and> ok3, w')
         \<and> trace w' =
             trace w @ (Sys_lstat source, True) # (Sys_readlink source PATH_MAX, ok1) #
               (if ok1
                then (Sys_symlink target dest, ok2) #
                       (if ok2 then [(Sys_lchown dest (st_uid st) (st_gid st), ok3)] else [])
                else [])
         \<and> (if ok1 \<and> ok2
             then map_option content (map_of (files w') dest) = Some target
             else files w' = files w)"
proof -
  obtain w1 where l: "lstat source w = (Some st, w1)"
    using assms(1) by (cases "lstat source w") auto
  obtain nd where nd: "map_of (files w) source = Some nd" "st = stat_of nd"
    using lstat_Some [OF assms(1)] by blast
  have w1: "w1 = log_call (Sys_lstat source) True w"
    using lstat_world [of source w] l by simp
  have f1: "files w1 = files w" and t1: "trace w1 = trace w @ [(Sys_lstat source, True)]"
    using w1 by (simp_all add: log_call_def)
  have lnk: "S_ISLNK (st_mode (meta nd))"
    using assms(3) nd(2) by (auto simp: stat_of_def split: if_splits)
  then have "st_size st = int (length (content nd))"
    using nd(2) by (simp add: stat_of_def)
  then have len: "length (content nd) \<le> PATH_MAX"
    using assms(4) by simp
  have kind: "\<not> S_ISDIR (st_mode st)" "\<not> S_ISREG (st_mode st)" "\<not> S_ISFIFO (st_mode st)"
    using assms(3)
    by (auto simp: S_ISDIR_def S_ISREG_def S_ISLNK_def S_ISFIFO_def S_IFDIR_def S_IFREG_def
          S_IFLNK_def S_IFIFO_def)
  obtain r1 w2 where rl: "readlink source PATH_MAX w1 = (r1, w2)"
    by (cases "readlink source PATH_MAX w1")
  have w2: "w2 = log_call (Sys_readlink source PATH_MAX) (r1 \<noteq> None) w1"
    using readlink_world [of source PATH_MAX w1] rl by simp
  have f2: "files w2 = files w"
    and t2: "trace w2 = trace w @ [(Sys_lstat source, True), (Sys_readlink source PATH_MAX, r1 \<noteq> None)]"
    using w2 f1 t1 by (simp_all add: log_call_def)
  show ?thesis
  proof (cases r1)
    case None
    have run: "process_file (Suc n) cfg pf source root prev_root w = Some (False, w2)"
      using l assms(2,3) kind rl None by (simp add: process_file.simps)
    show ?thesis
      apply (rule exI [of _ "content nd"], rule exI [of _ False], rule exI [of _ False],
             rule exI [of _ False], rule exI [of _ w2])
      using run nd(1) t2 f2 None by simp
  next
    case (Some buffer)
    have "buffer = take PATH_MAX (content nd)"
      using readlink_Some [of source PATH_MAX w1 buffer] rl Some f1 nd(1) by auto
    then have buf: "buffer = content nd"
      using len by simp
    obtain r2 w3 where sl: "symlink buffer dest w2 = (r2, w3)"
      by (cases "symlink buffer dest w2")
    have t3: "trace w3 = trace w2 @ [(Sys_symlink buffer dest, r2 \<noteq> None)]"
      using syscalls_trace(4) [of buffer dest w2] sl by simp
    show ?thesis
    proof (cases r2)
      case None
      have f3: "files w3 = files w"
        using symlink_None [of buffer dest w2] sl None f2 by simp
      have run: "process_file (Suc n) cfg pf source root prev_root w = Some (False, w3)"
        using l assms(2,3) kind rl Some sl None by (simp add: process_file.simps dest_def)
      show ?thesis
        apply (rule exI [of _ "content nd"], rule exI [of _ True], rule exI [of _ False],
               rule exI [of _ False], rule exI [of _ w3])
        using run f3 nd(1) t2 t3 None buf \<open>r1 = Some buffer\<close> by simp
    next
      case (Some u)
      obtain r3 w4 where lc: "lchown dest (st_uid st) (st_gid st) w3 = (r3, w4)"
        by (cases "lchown dest (st_uid st) (st_gid st) w3")
      have t4: "trace w4 = trace w3 @ [(Sys_lchown dest (st_uid st) (st_gid st), r3 \<noteq> None)]"
        using syscalls_trace(3) [of dest "st_uid st" "st_gid st" w3] lc by simp
      have "map_option content (map_of (files w3) dest) = Some buffer"
        using symlink_Some [of buffer dest w2 u] sl Some by (auto simp: map_add_def)
      then have c4: "map_option content (map_of (files w4) dest) = Some (content nd)"
        using lchown_content [of dest "st_uid st" "st_gid st" w3 dest] lc buf by simp
      have run: "process_file (Suc n) cfg pf source root prev_root w = Some (r3 \<noteq> None, w4)"
        using l assms(2,3) kind rl \<open>r1 = Some buffer\<close> sl Some lc
        by (cases r3) (simp_all add: process_file.simps dest_def)
      show ?thesis
        apply (rule exI [of _ "content nd"], rule exI [of _ True], rule exI [of _ True],
               rule exI [of _ "r3 \<noteq> None"], rule exI [of _ w4])
        using run nd(1) t2 t3 t4 Some buf c4 \<open>r1 = Some buffer\<close> by simp
    qed
  qed
qed

text \<open>
  The link \<^verbatim>\<open>/s/l\<close> with the target \<^verbatim>\<open>t\<close>, in a world that refuses \<^verbatim>\<open>lchown\<close>.
\<close>

theorem process_file_symlink_witness:
  "\<exists>ok1 ok2 ok3 w'.
       process_file (Suc 0) default_config linux_utc ''/s/l'' ''/b'' None
         (link_source lchown_refused) = Some (ok1 \<and> ok2 \<and> ok3, w')
     \<and> trace w' =
         (Sys_lstat ''/s/l'', True) # (Sys_readlink ''/s/l'' PATH_MAX, ok1) #
           (if ok1
            then (Sys_symlink ''t'' ''/b/s/l'', ok2) #
                   (if ok2 then [(Sys_lchown ''/b/s/l'' 1000 1000, ok3)] else [])
            else [])
     \<and> (if ok1 \<and> ok2
         then map_option content (map_of (files w') ''/b/s/l'') = Some ''t''
         else files w' = files (link_source lchown_refused))"
proof -
  define st where "st = stat_of (mknode 0xA1FF 1000 7 ''t'')"
  have h1: "fst (lstat ''/s/l'' (link_source lchown_refused)) = Some st"
    unfolding st_def by code_simp
  have h2: "\<not> excluded default_config linux_utc ''/s/l''"
    by code_simp
  have h3: "S_ISLNK (st_mode st)"
    unfolding st_def by code_simp
  have h4: "st_size st \<le> int PATH_MAX"
    unfolding st_def by code_simp
  have e: "map_option content (map_of (files (link_source lchown_refused)) ''/s/l'') = Some ''t''"
          "st_uid st = 1000" "st_gid st = 1000" "trace (link_source lchown_refused) = []"
          "join_path ''/b'' ''/s/l'' = ''/b/s/l''"
    unfolding st_def by code_simp+
  show ?thesis
    using process_file_symlink [OF h1 h2 h3 h4, where root = "''/b''" and n = 0
        and prev_root = None]
    unfolding e by auto
qed

text \<open>
  The claim as first stated fails: where \<^verbatim>\<open>lchown\<close> is refused, and nothing else is,
  the link is reproduced and the processing of the entry fails.
\<close>

theorem process_file_symlink_counterexample:
  "(case process_file (Suc 0) default_config linux_utc ''/s/l'' ''/b'' None
           (link_source lchown_refused) of
      None \<Rightarrow> False
    | Some (r, w') \<Rightarrow>
        \<not> r \<and> map_option content (map_of (files w') ''/b/s/l'') = Some ''t''
          \<and> trace w' =
              [(Sys_lstat ''/s/l'', True), (Sys_readlink ''/s/l'' 4096, True),
               (Sys_symlink ''t'' ''/b/s/l'', True), (Sys_lchown ''/b/s/l'' 1000 1000, False)])"
  by code_simp

section \<open>Copying a file: the size of the buffer and the size of a read\<close>

text \<open>
  Claim C3 says that the buffer of \<^verbatim>\<open>copy_file\<close> and the count passed to each
  \<^verbatim>\<open>read\<close> are the same value, the preferred block size of the source. The source does
  otherwise (line 255 against line 265): for a file of twenty bytes with the block size
  4096 on an LP64 platform, 4096 bytes are allocated and every \<^verbatim>\<open>read\<close> asks for 8, the
  size of the pointer.
\<close>

theorem copy_file_read_count:
  "map_option st_blksize (fst (lstat ''/s/a'' twenty_bytes)) = Some 4096
   \<and> map_option (\<lambda>(r, w'). map fst (trace w'))
         (copy_file linux_utc ''/s/a'' ''/b/s/a''
            (stat_of (mknode 0x81A4 0 7 ''0123456789abcdefghij'')) twenty_bytes) =
       Some [Sys_open_rdonly ''/s/a'', Sys_open_creat ''/b/s/a'' 0x81A4, Sys_malloc 4096,
             Sys_read ''/s/a'' 8, Sys_write ''/b/s/a'' 8,
             Sys_read ''/s/a'' 8, Sys_write ''/b/s/a'' 8,
             Sys_read ''/s/a'' 8, Sys_write ''/b/s/a'' 4,
             Sys_read ''/s/a'' 8]"
  by code_simp

section \<open>The walk: the final mode of a directory\<close>

text \<open>
  Claim C5 says that, once its children are done, a destination directory gets the exact
  original mode of the source directory, without the owner bits added for its creation.
  The source does otherwise: line 362 writes the augmented mode into the stat buffer
  itself, and both later \<^verbatim>\<open>chmod\<close> calls (line 398, and line 221 through
  \<^verbatim>\<open>copy_time\<close>) read it from there. For the empty directory \<^verbatim>\<open>/s\<close> of mode 0555 and
  the umask 022, the walk succeeds and leaves the destination with the mode 0755.
\<close>

theorem process_file_directory_mode:
  "map_option (\<lambda>n. st_mode (meta n)) (map_of (files read_only_dir) ''/s'') = Some 0x416D
   \<and> (case process_file (Suc (Suc 0)) default_config linux_utc ''/s'' ''/b'' None read_only_dir of
         None \<Rightarrow> False
       | Some (r, w') \<Rightarrow>
           r \<and> map_option (\<lambda>n. st_mode (meta n)) (map_of (files w') ''/b/s'') = Some 0x41ED
             \<and> filter (\<lambda>e. case fst e of Sys_chmod p m \<Rightarrow> True | _ \<Rightarrow> False) (trace w') =
                 [(Sys_chmod ''/b/s'' 0x41ED, True), (Sys_chmod ''/b/s'' 0x41ED, True)])"
  by code_simp

section \<open>Linking to the previous snapshot\<close>

text \<open>
  A successful \<^verbatim>\<open>symlink_file\<close> adds one entry to the store, the new link. Its target
  is the source path itself when the source is no link, and the source's own target
  (what fits the buffer) when it is one.
\<close>

lemma symlink_file_True:
  assumes "symlink_file source dest w = (True, w')"
  shows "\<exists>ns nd. map_of (files w) source = Some ns
           \<and> files w' = files w @ [(dest, nd)] \<and> map_of (files w) dest = None
           \<and> S_ISLNK (st_mode (meta nd)) \<and> valid_path (content nd)
           \<and> content nd = (if S_ISLNK (st_mode (meta ns)) then take PATH_MAX (content ns)
                            else source)"
proof -
  obtain r1 w1 where l: "lstat source w = (r1, w1)"
    by (cases "lstat source w")
  obtain s where s: "r1 = Some s"
    using assms l by (cases r1) (auto simp: symlink_file_def)
  obtain ns where ns: "map_of (files w) source = Some ns" "s = stat_of ns"
    using lstat_Some [of source w s] l s by auto
  have f1: "files w1 = files w"
    using lstat_world [of source w] l by (simp add: log_call_def)
  have sl: "S_ISLNK (st_mode s) = S_ISLNK (st_mode (meta ns))"
    using ns(2) by (simp add: stat_of_def)
  show ?thesis
  proof (cases "S_ISLNK (st_mode s)")
    case False
    obtain r2 where c: "symlink source dest w1 = (r2, w')" "r2 \<noteq> None"
      using assms l s False by (auto simp: symlink_file_def split: prod.splits)
    then obtain u where "fst (symlink source dest w1) = Some u"
      by auto
    from symlink_Some [OF this] show ?thesis
      using c(1) f1 ns(1) False sl by auto
  next
    case True
    obtain r2 w2 where rl: "readlink source PATH_MAX w1 = (r2, w2)"
      by (cases "readlink source PATH_MAX w1")
    obtain buffer where b: "r2 = Some buffer"
      using assms l s True rl by (cases r2) (auto simp: symlink_file_def)
    have buf: "buffer = take PATH_MAX (content ns)"
      using readlink_Some [of source PATH_MAX w1 buffer] rl b f1 ns(1) by auto
    have f2: "files w2 = files w"
      using readlink_world [of source PATH_MAX w1] rl f1 by (simp add: log_call_def)
    obtain r3 where c: "symlink buffer dest w2 = (r3, w')" "r3 \<noteq> None"
      using assms l s True rl b by (auto simp: symlink_file_def split: prod.splits)
    then obtain u where "fst (symlink buffer dest w2) = Some u"
      by auto
    from symlink_Some [OF this] show ?thesis
      using c(1) f2 ns(1) True sl buf by auto
  qed
qed

text \<open>
  The link made has the very target read: a target that \<^verbatim>\<open>symlink\<close> accepts is shorter
  than the buffer. A failing \<^verbatim>\<open>symlink_file\<close> leaves the store as it was, and its first
  call is the \<^verbatim>\<open>lstat\<close> of the source.
\<close>

lemma symlink_file_target:
  assumes "symlink_file source dest w = (True, w')"
  shows "\<exists>ns nd. map_of (files w) source = Some ns
           \<and> files w' = files w @ [(dest, nd)] \<and> map_of (files w) dest = None
           \<and> S_ISLNK (st_mode (meta nd))
           \<and> content nd = (if S_ISLNK (st_mode (meta ns)) then content ns else source)"
proof -
  obtain ns nd where e:
    "map_of (files w) source = Some ns" "files w' = files w @ [(dest, nd)]"
    "map_of (files w) dest = None" "S_ISLNK (st_mode (meta nd))" "valid_path (content nd)"
    "content nd = (if S_ISLNK (st_mode (meta ns)) then take PATH_MAX (content ns) else source)"
    using symlink_file_True [OF assms] by blast
  have "take PATH_MAX (content ns) = content ns" if "S_ISLNK (st_mode (meta ns))"
  proof -
    have "length (take PATH_MAX (content ns)) < PATH_MAX"
      using e(5,6) that by (simp add: valid_path_def)
    then show ?thesis
      by (simp add: min_def split: if_splits)
  qed
  then show ?thesis
    using e by auto
qed

lemma symlink_file_cases:
  obtains (nostat) "fst (lstat source w) = None"
                   "symlink_file source dest w = (False, snd (lstat source w))"
  | (plain) s where "fst (lstat source w) = Some s" "\<not> S_ISLNK (st_mode s)"
      "symlink_file source dest w
         = (fst (symlink source dest (snd (lstat source w))) \<noteq> None,
            snd (symlink source dest (snd (lstat source w))))"
  | (noread) s where "fst (lstat source w) = Some s" "S_ISLNK (st_mode s)"
      "fst (readlink source PATH_MAX (snd (lstat source w))) = None"
      "symlink_file source dest w
         = (False, snd (readlink source PATH_MAX (snd (lstat source w))))"
  | (read) s buffer where "fst (lstat source w) = Some s" "S_ISLNK (st_mode s)"
      "fst (readlink source PATH_MAX (snd (lstat source w))) = Some buffer"
      "symlink_file source dest w
         = (fst (symlink buffer dest (snd (readlink source PATH_MAX (snd (lstat source w)))))
              \<noteq> None,
            snd (symlink buffer dest (snd (readlink source PATH_MAX (snd (lstat source w))))))"
proof (cases "fst (lstat source w)")
  case None
  then show ?thesis
    by (intro nostat) (auto simp: symlink_file_def split: prod.splits)
next
  case (Some s)
  show ?thesis
  proof (cases "S_ISLNK (st_mode s)")
    case False
    show ?thesis
      using Some False
      by (intro plain [of s]) (auto simp: symlink_file_def split: prod.splits)
  next
    case True
    show ?thesis
    proof (cases "fst (readlink source PATH_MAX (snd (lstat source w)))")
      case None
      show ?thesis
        using Some True None
        by (intro noread [of s]) (auto simp: symlink_file_def split: prod.splits)
    next
      case (Some buffer)
      show ?thesis
        using \<open>fst (lstat source w) = Some s\<close> True Some
        by (intro read [of s buffer]) (auto simp: symlink_file_def split: prod.splits)
    qed
  qed
qed

lemma symlink_file_False:
  assumes "symlink_file source dest w = (False, w')"
  shows "files w' = files w"
proof -
  have l: "files (snd (lstat p v)) = files v" for p v
    using lstat_world [of p v] by (simp add: log_call_def)
  have rl: "files (snd (readlink p k v)) = files v" for p k v
    using readlink_world [of p k v] by (simp add: log_call_def)
  show ?thesis
  proof (cases rule: symlink_file_cases [where source = source and dest = dest and w = w])
    case nostat
    then show ?thesis using assms l by simp
  next
    case (plain s)
    then show ?thesis
      using assms l symlink_None [of source dest "snd (lstat source w)"]
      by (cases "fst (symlink source dest (snd (lstat source w)))") auto
  next
    case (noread s)
    then show ?thesis using assms l rl by simp
  next
    case (read s buffer)
    then show ?thesis
      using assms l rl
        symlink_None [of buffer dest "snd (readlink source PATH_MAX (snd (lstat source w)))"]
      by (cases "fst (symlink buffer dest
                        (snd (readlink source PATH_MAX (snd (lstat source w)))))") auto
  qed
qed

lemma symlink_file_first_call:
  "\<exists>ok evs. trace (snd (symlink_file source dest w)) = trace w @ (Sys_lstat source, ok) # evs"
proof -
  define w1 where "w1 = snd (lstat source w)"
  have t: "trace w1 = trace w @ [(Sys_lstat source, fst (lstat source w) \<noteq> None)]"
    unfolding w1_def by (rule syscalls_trace(1))
  have g: "store_grows w1 (snd (symlink_file source dest w))"
  proof (cases rule: symlink_file_cases [where source = source and dest = dest and w = w])
    case nostat
    then show ?thesis by (simp add: w1_def store_grows_refl)
  next
    case (plain s)
    then show ?thesis
      using syscalls_store_grows(10) [of w1 source dest] by (simp add: w1_def)
  next
    case (noread s)
    then show ?thesis
      using syscalls_store_grows(11) [of w1 source PATH_MAX] by (simp add: w1_def)
  next
    case (read s buffer)
    then show ?thesis
      using store_grows_trans [OF syscalls_store_grows(11) [of w1 source PATH_MAX]
              syscalls_store_grows(10) [of "snd (readlink source PATH_MAX w1)" buffer dest]]
      by (simp add: w1_def)
  qed
  obtain evs where "trace (snd (symlink_file source dest w)) = trace w1 @ evs"
    using store_grows_trace [OF g] by blast
  then show ?thesis
    using t by simp
qed

text \<open>
  The generations, by induction: when the first counterpart is the real copy \<open>d0\<close> or a
  link to it, every generation's link has the target \<open>d0\<close>, and the store only grows.
\<close>

lemma link_generations_targets:
  assumes "link_generations prev dests w = (True, w')"
      and "map_of (files w) d0 = Some n0" and "\<not> S_ISLNK (st_mode (meta n0))"
      and "prev = d0 \<or> (\<exists>np. map_of (files w) prev = Some np \<and> S_ISLNK (st_mode (meta np))
                              \<and> content np = d0 \<and> length d0 \<le> PATH_MAX)"
  shows "(\<forall>q x. map_of (files w) q = Some x \<longrightarrow> map_of (files w') q = Some x)
         \<and> (\<forall>d\<in>set dests. \<exists>nd. map_of (files w') d = Some nd \<and> S_ISLNK (st_mode (meta nd))
                               \<and> content nd = d0)"
  using assms
proof (induction dests arbitrary: prev w)
  case Nil
  then show ?case by simp
next
  case (Cons dest dests)
  obtain w1 where s: "symlink_file prev dest w = (True, w1)"
              and g: "link_generations dest dests w1 = (True, w')"
    using Cons.prems(1) by (auto split: prod.splits bool.splits)
  obtain ns nd where e:
    "map_of (files w) prev = Some ns" "files w1 = files w @ [(dest, nd)]"
    "map_of (files w) dest = None" "S_ISLNK (st_mode (meta nd))" "valid_path (content nd)"
    "content nd = (if S_ISLNK (st_mode (meta ns)) then take PATH_MAX (content ns) else prev)"
    using symlink_file_True [OF s] by blast
  have look: "map_of (files w1) q = (if q = dest then Some nd else map_of (files w) q)" for q
    using e(2,3) by (simp add: map_add_def split: option.splits)
  have tgt: "content nd = d0"
    using Cons.prems(2-4) e(1,6) by auto
  have d0: "map_of (files w1) d0 = Some n0"
    using look [of d0] Cons.prems(2) e(3) by auto
  have len: "length d0 \<le> PATH_MAX"
    using e(5) tgt by (simp add: valid_path_def)
  have nxt: "dest = d0 \<or> (\<exists>np. map_of (files w1) dest = Some np \<and> S_ISLNK (st_mode (meta np))
                              \<and> content np = d0 \<and> length d0 \<le> PATH_MAX)"
    using look [of dest] e(4) tgt len by simp
  have ih: "(\<forall>q x. map_of (files w1) q = Some x \<longrightarrow> map_of (files w') q = Some x)
            \<and> (\<forall>d\<in>set dests. \<exists>nd. map_of (files w') d = Some nd \<and> S_ISLNK (st_mode (meta nd))
                                  \<and> content nd = d0)"
    by (rule Cons.IH [OF g d0 Cons.prems(3) nxt])
  have grow: "\<forall>q x. map_of (files w) q = Some x \<longrightarrow> map_of (files w') q = Some x"
  proof (intro allI impI)
    fix q x
    assume q: "map_of (files w) q = Some x"
    then have "q \<noteq> dest"
      using e(3) by auto
    then have "map_of (files w1) q = Some x"
      using look [of q] q by simp
    then show "map_of (files w') q = Some x"
      using ih by blast
  qed
  have head: "\<exists>nd. map_of (files w') dest = Some nd \<and> S_ISLNK (st_mode (meta nd))
                \<and> content nd = d0"
  proof -
    have "map_of (files w1) dest = Some nd"
      using look [of dest] by simp
    then have "map_of (files w') dest = Some nd"
      using ih by blast
    then show ?thesis
      using e(4) tgt by blast
  qed
  show ?case
    using grow head ih by simp
qed

lemma link_depth_one:
  assumes "map_of fs d = Some nd" and "S_ISLNK (st_mode (meta nd))"
      and "content nd = d0" and "absolute_path d0"
      and "map_of fs d0 = Some n0" and "\<not> S_ISLNK (st_mode (meta n0))"
  shows "link_depth (Suc (Suc k)) fs d = 1"
proof -
  obtain c cs where c: "d0 = c # cs" "c = CHR ''/''"
    using assms(4) by (cases d0) (auto simp: absolute_path_def)
  have "link_target_path d (content nd) = d0"
    using assms(3) c by (simp add: link_target_path_def)
  then show ?thesis
    using assms(1,2,5,6) by simp
qed

text \<open>
  Claim C2, as amended. Whenever \<^verbatim>\<open>symlink_file\<close> succeeds on a counterpart that is
  itself a link, the new link has the counterpart's own target, read once. Let then
  \<open>d0\<close> be a stored copy (an entry of the store that is not a link), and let the
  generations \<open>dests\<close> be linked one after the other, each to the one before, the first
  to \<open>d0\<close>, all with success. Then the store has only grown; the link of every generation
  has the target \<open>d0\<close>; and \<open>d0\<close> is still no link. So the chain from any generation's
  link has one level: when \<open>d0\<close> is an absolute path, following the link passes exactly
  one link, whatever the bound on the links followed.
\<close>

theorem link_generations_one_level:
  assumes "link_generations d0 dests w = (True, w')"
      and "map_of (files w) d0 = Some n0"
      and "\<not> S_ISLNK (st_mode (meta n0))"
  shows "(\<forall>prev dest v v' np.
            symlink_file prev dest v = (True, v') \<and> map_of (files v) prev = Some np
              \<and> S_ISLNK (st_mode (meta np))
            \<longrightarrow> (\<exists>nd. map_of (files v') dest = Some nd \<and> S_ISLNK (st_mode (meta nd))
                    \<and> content nd = content np))
         \<and> map_of (files w') d0 = Some n0
         \<and> (\<forall>d\<in>set dests. \<exists>nd. map_of (files w') d = Some nd \<and> S_ISLNK (st_mode (meta nd))
               \<and> content nd = d0
               \<and> (absolute_path d0 \<longrightarrow> (\<forall>k. link_depth (Suc (Suc k)) (files w') d = 1)))"
proof (intro conjI ballI allI impI)
  fix prev dest v v' np
  assume s: "symlink_file prev dest v = (True, v') \<and> map_of (files v) prev = Some np
               \<and> S_ISLNK (st_mode (meta np))"
  then obtain ns nd where e: "map_of (files v) prev = Some ns"
      "files v' = files v @ [(dest, nd)]" "map_of (files v) dest = None"
      "S_ISLNK (st_mode (meta nd))"
      "content nd = (if S_ISLNK (st_mode (meta ns)) then content ns else prev)"
    using symlink_file_target [of prev dest v v'] by blast
  have "map_of (files v') dest = Some nd"
    using e(2,3) by (simp add: map_add_def split: option.splits)
  moreover have "content nd = content np"
    using e(1,5) s by simp
  ultimately show "\<exists>nd. map_of (files v') dest = Some nd \<and> S_ISLNK (st_mode (meta nd))
                     \<and> content nd = content np"
    using e(4) by blast
next
  have t: "(\<forall>q x. map_of (files w) q = Some x \<longrightarrow> map_of (files w') q = Some x)
           \<and> (\<forall>d\<in>set dests. \<exists>nd. map_of (files w') d = Some nd \<and> S_ISLNK (st_mode (meta nd))
                                 \<and> content nd = d0)"
    by (rule link_generations_targets [OF assms(1,2,3)]) simp
  from t have "map_of (files w) d0 = Some n0 \<longrightarrow> map_of (files w') d0 = Some n0"
    by (elim conjE allE)
  then show d0: "map_of (files w') d0 = Some n0"
    using assms(2) by (rule mp)
  fix d
  assume d: "d \<in> set dests"
  from t have "\<forall>d\<in>set dests. \<exists>nd. map_of (files w') d = Some nd \<and> S_ISLNK (st_mode (meta nd))
                                 \<and> content nd = d0"
    by (rule conjunct2)
  then have "\<exists>nd. map_of (files w') d = Some nd \<and> S_ISLNK (st_mode (meta nd)) \<and> content nd = d0"
    using d by (rule bspec)
  then obtain nd where nd: "map_of (files w') d = Some nd" "S_ISLNK (st_mode (meta nd))"
                           "content nd = d0"
    by (elim exE conjE)
  have "link_depth (Suc (Suc k)) (files w') d = 1" if "absolute_path d0" for k
    by (rule link_depth_one [OF nd that d0 assms(3)])
  then have "absolute_path d0 \<longrightarrow> (\<forall>k. link_depth (Suc (Suc k)) (files w') d = 1)"
    by (intro impI allI)
  then show "\<exists>nd. map_of (files w') d = Some nd \<and> S_ISLNK (st_mode (meta nd)) \<and> content nd = d0
          \<and> (absolute_path d0 \<longrightarrow> (\<forall>k. link_depth (Suc (Suc k)) (files w') d = 1))"
    using nd by (intro exI [of _ nd] conjI)
qed


text \<open>
  Three unchanged generations after the copy \<^verbatim>\<open>/b/r0/a\<close>: the link of the third points
  at the copy, not at the link of the second; and the second generation, whose
  counterpart is the link of the first, gets that link's target.
\<close>

lemma first_run_done_second_link:
  "fst (symlink_file ''/b/r1/a'' ''/b/r2/a''
          (snd (symlink_file ''/b/r0/a'' ''/b/r1/a'' first_run_done)))
   \<and> map_option (\<lambda>n. (S_ISLNK (st_mode (meta n)), content n))
         (map_of (files (snd (symlink_file ''/b/r0/a'' ''/b/r1/a'' first_run_done)))
            ''/b/r1/a'') = Some (True, ''/b/r0/a'')"
  by code_simp


theorem link_generations_one_level_witness:
  "fst (link_generations ''/b/r0/a'' [''/b/r1/a'', ''/b/r2/a'', ''/b/r3/a''] first_run_done)
   \<and> (\<exists>nd. map_of (files (snd (link_generations ''/b/r0/a''
                                   [''/b/r1/a'', ''/b/r2/a'', ''/b/r3/a''] first_run_done)))
               ''/b/r3/a'' = Some nd
          \<and> S_ISLNK (st_mode (meta nd)) \<and> content nd = ''/b/r0/a''
          \<and> link_depth (Suc (Suc MAXSYMLINKS))
               (files (snd (link_generations ''/b/r0/a''
                              [''/b/r1/a'', ''/b/r2/a'', ''/b/r3/a''] first_run_done)))
               ''/b/r3/a'' = 1)
   \<and> (\<exists>nd. map_of (files (snd (symlink_file ''/b/r1/a'' ''/b/r2/a''
                                   (snd (symlink_file ''/b/r0/a'' ''/b/r1/a'' first_run_done)))))
               ''/b/r2/a'' = Some nd
          \<and> S_ISLNK (st_mode (meta nd)) \<and> content nd = ''/b/r0/a'')"
proof -
  define w' where
    "w' = snd (link_generations ''/b/r0/a'' [''/b/r1/a'', ''/b/r2/a'', ''/b/r3/a'']
                 first_run_done)"
  define v where "v = snd (symlink_file ''/b/r0/a'' ''/b/r1/a'' first_run_done)"
  define v' where "v' = snd (symlink_file ''/b/r1/a'' ''/b/r2/a'' v)"
  have ok: "fst (link_generations ''/b/r0/a'' [''/b/r1/a'', ''/b/r2/a'', ''/b/r3/a'']
                   first_run_done)"
    by code_simp
  then have h1: "link_generations ''/b/r0/a'' [''/b/r1/a'', ''/b/r2/a'', ''/b/r3/a'']
                   first_run_done = (True, w')"
    unfolding w'_def by (simp add: prod_eq_iff)
  have h2: "map_of (files first_run_done) ''/b/r0/a'' = Some (mknode 0x81A4 0 7 ''hello'')"
    by (simp add: first_run_done_def mkworld_def)
  have h3: "\<not> S_ISLNK (st_mode (meta (mknode 0x81A4 0 7 ''hello'')))"
    by code_simp
  have h4: "absolute_path ''/b/r0/a''"
    by (simp add: absolute_path_def)
  note t = link_generations_one_level [OF h1 h2 h3]
  have "\<forall>d\<in>set [''/b/r1/a'', ''/b/r2/a'', ''/b/r3/a''].
          \<exists>nd. map_of (files w') d = Some nd \<and> S_ISLNK (st_mode (meta nd))
            \<and> content nd = ''/b/r0/a''
            \<and> (absolute_path ''/b/r0/a''
                 \<longrightarrow> (\<forall>k. link_depth (Suc (Suc k)) (files w') d = 1))"
    using t [THEN conjunct2] by (rule conjunct2)
  then have "\<exists>nd. map_of (files w') ''/b/r3/a'' = Some nd \<and> S_ISLNK (st_mode (meta nd))
            \<and> content nd = ''/b/r0/a''
            \<and> (absolute_path ''/b/r0/a''
                 \<longrightarrow> (\<forall>k. link_depth (Suc (Suc k)) (files w') ''/b/r3/a'' = 1))"
    by (rule bspec) simp
  then obtain nd where
    nd: "map_of (files w') ''/b/r3/a'' = Some nd" "S_ISLNK (st_mode (meta nd))"
        "content nd = ''/b/r0/a''"
        "absolute_path ''/b/r0/a''
           \<longrightarrow> (\<forall>k. link_depth (Suc (Suc k)) (files w') ''/b/r3/a'' = 1)"
    by (elim exE conjE)
  have "\<forall>k. link_depth (Suc (Suc k)) (files w') ''/b/r3/a'' = 1"
    using nd(4) h4 by (rule mp)
  then have "link_depth (Suc (Suc MAXSYMLINKS)) (files w') ''/b/r3/a'' = 1"
    by (rule spec)
  then have a: "\<exists>nd. map_of (files w') ''/b/r3/a'' = Some nd
          \<and> S_ISLNK (st_mode (meta nd)) \<and> content nd = ''/b/r0/a''
          \<and> link_depth (Suc (Suc MAXSYMLINKS)) (files w') ''/b/r3/a'' = 1"
    using nd(1-3) by (intro conjI exI [of _ nd])
  obtain np where np: "map_of (files v) ''/b/r1/a'' = Some np" "S_ISLNK (st_mode (meta np))"
                      "content np = ''/b/r0/a''"
    using first_run_done_second_link [folded v_def] by auto
  have s: "symlink_file ''/b/r1/a'' ''/b/r2/a'' v = (True, v')"
    using first_run_done_second_link [folded v_def] unfolding v'_def
    by (simp add: prod_eq_iff)
  have "\<exists>nd. map_of (files v') ''/b/r2/a'' = Some nd \<and> S_ISLNK (st_mode (meta nd))
          \<and> content nd = content np"
    by (rule t [THEN conjunct1, THEN spec, THEN spec, THEN spec, THEN spec, THEN spec, THEN mp,
                 of "''/b/r1/a''" "''/b/r2/a''" v v' np])
       (intro conjI s np(1,2))
  then have b: "\<exists>nd. map_of (files v') ''/b/r2/a'' = Some nd \<and> S_ISLNK (st_mode (meta nd))
          \<and> content nd = ''/b/r0/a''"
    using np(3) by simp
  show ?thesis
    unfolding w'_def [symmetric] v_def [symmetric] v'_def [symmetric]
    using ok [folded w'_def] a b by (intro conjI)
qed

text \<open>
  Where the claim as first stated fails. A counterpart that was not made by linking a
  stored copy: the source \<^verbatim>\<open>/s/a\<close> was a link to \<^verbatim>\<open>/m\<close>, itself a link to \<^verbatim>\<open>/real\<close>,
  when the previous snapshot reproduced it verbatim as \<^verbatim>\<open>/b/r0/s/a\<close>; it is now a
  regular file with the modification time of \<^verbatim>\<open>/real\<close>. The walker links the new
  \<^verbatim>\<open>/b/r1/s/a\<close> to \<^verbatim>\<open>/m\<close>, and the chain from it has two links.
\<close>

lemma chain_from_copied_link:
  "(case process_file (Suc 0) default_config linux_utc ''/s/a'' ''/b/r1'' (Some ''/b/r0'')
           chained_counterpart of
      None \<Rightarrow> False
    | Some (r, w') \<Rightarrow>
        r \<and> map_option content (map_of (files w') ''/b/r1/s/a'') = Some ''/m''
          \<and> link_depth (Suc (Suc MAXSYMLINKS)) (files w') ''/b/r1/s/a'' = 2)"
  by code_simp

text \<open>
  Relative roots: the counterpart \<^verbatim>\<open>b/r0/a\<close> is a stored copy, and the new link
  \<^verbatim>\<open>b/r1/a\<close> gets the target \<^verbatim>\<open>b/r0/a\<close>, which is read from the directory of the link:
  it names \<^verbatim>\<open>b/r1/b/r0/a\<close>, here a link, and the chain has two links.
\<close>

lemma chain_from_relative_root:
  "(case process_file (Suc 0) default_config linux_utc ''a'' ''b/r1'' (Some ''b/r0'')
           relative_roots of
      None \<Rightarrow> False
    | Some (r, w') \<Rightarrow>
        r \<and> map_option content (map_of (files w') ''b/r1/a'') = Some ''b/r0/a''
          \<and> link_depth (Suc (Suc MAXSYMLINKS)) (files w') ''b/r1/a'' = 2)"
  by code_simp

theorem link_generations_one_level_counterexample:
  "(case process_file (Suc 0) default_config linux_utc ''/s/a'' ''/b/r1'' (Some ''/b/r0'')
           chained_counterpart of
      None \<Rightarrow> False
    | Some (r, w') \<Rightarrow>
        r \<and> map_option content (map_of (files w') ''/b/r1/s/a'') = Some ''/m''
          \<and> link_depth (Suc (Suc MAXSYMLINKS)) (files w') ''/b/r1/s/a'' = 2)
   \<and> (case process_file (Suc 0) default_config linux_utc ''a'' ''b/r1'' (Some ''b/r0'')
              relative_roots of
         None \<Rightarrow> False
       | Some (r, w') \<Rightarrow>
           r \<and> map_option content (map_of (files w') ''b/r1/a'') = Some ''b/r0/a''
             \<and> link_depth (Suc (Suc MAXSYMLINKS)) (files w') ''b/r1/a'' = 2)"
  by (rule conjI [OF chain_from_copied_link chain_from_relative_root])

section \<open>The walk: directories\<close>

text \<open>The directory branch of \<^verbatim>\<open>process_file\<close>, lines 359--408, on its own.\<close>

lemma process_file_directory_unfold:
  assumes "lstat source w = (Some st, w1)"
      and "\<not> excluded cfg pf source"
      and "S_ISDIR (st_mode st)"
  shows "process_file (Suc n) cfg pf source root prev_root w =
     (case rmkdir n (join_path root source) (st_mode st OR S_IRWXU) (w1\<lparr>cmask := 0\<rparr>) of
        None \<Rightarrow> None
      | Some (rc, w3) \<Rightarrow>
          if rc < 0 then Some (False, w3\<lparr>cmask := cmask w1\<rparr>)
          else
            (case opendir source (w3\<lparr>cmask := cmask w1\<rparr>) of
               (None, w5) \<Rightarrow> Some (False, w5)
             | (Some names, w5) \<Rightarrow>
                 (case dir_loop (\<lambda>s. process_file n cfg pf s root prev_root)
                         source names True w5 of
                    None \<Rightarrow> None
                  | Some (result, w6) \<Rightarrow>
                      if \<not> result then Some (False, w6)
                      else
                        (case chmod (join_path root source)
                                ((st_mode st OR S_IRWXU) AND NOT (cmask w1)) w6 of
                           (None, w7) \<Rightarrow> Some (False, w7)
                         | (Some u, w7) \<Rightarrow>
                             (case copy_time (join_path root source)
                                     (st\<lparr>st_mode := st_mode st OR S_IRWXU\<rparr>) w7 of
                                (r, s', w8) \<Rightarrow> Some (r, w8))))))"
  using assms
  by (simp add: process_file.simps Let_def split: option.splits prod.splits)

text \<open>The loop over the entries, cut at an entry.\<close>

lemma dir_loop_append:
  "dir_loop walk source (names @ names') True w =
     (case dir_loop walk source names True w of
        None \<Rightarrow> None
      | Some (r, w') \<Rightarrow> if r then dir_loop walk source names' True w' else Some (False, w'))"
proof (induction names arbitrary: w)
  case Nil
  show ?case by simp
next
  case (Cons name names)
  show ?case
  proof (cases "ignore_dir name")
    case True
    then show ?thesis
      using Cons.IH [of w] by simp
  next
    case False
    show ?thesis
    proof (cases "walk (join_path source name) w")
      case None
      then show ?thesis
        using False by simp
    next
      case (Some p)
      obtain r w' where p: "p = (r, w')"
        by (cases p)
      show ?thesis
      proof (cases r)
        case True
        then show ?thesis
          using False Some p Cons.IH [of w'] by simp
      next
        case r: False
        have stop: "dir_loop walk source xs False w' = Some (False, w')" for xs
          by (cases xs) simp_all
        show ?thesis
          using False Some p r stop by simp
      qed
    qed
  qed
qed

text \<open>No call of the program removes a path from the store.\<close>

lemma rmkdir_store_grows:
  "rmkdir n path m w = Some (rc, w') \<Longrightarrow> store_grows w w'"
proof (induction n arbitrary: path w rc w')
  case 0
  then show ?case by simp
next
  case (Suc n)
  obtain ps w1 where s1: "stat (dirname path) w = (ps, w1)"
    by (cases "stat (dirname path) w")
  have g1: "store_grows w w1"
    using syscalls_store_grows(2) [of w "dirname path"] s1 by simp
  obtain r w2 where up: "(if ps = None then rmkdir n (dirname path) m w1 else Some (0, w1))
                           = Some (r, w2)"
    using Suc.prems s1 by (auto simp: Let_def split: option.splits prod.splits if_splits)
  have g2: "store_grows w1 w2"
  proof (cases ps)
    case None
    then show ?thesis
      using up Suc.IH [of "dirname path" w1 r w2] by simp
  next
    case (Some a)
    then show ?thesis
      using up by (simp add: store_grows_refl)
  qed
  note g12 = store_grows_trans [OF g1 g2]
  show ?case
  proof (cases "ps = None \<and> r < 0")
    case True
    then have "w' = w2"
      using Suc.prems s1 up by (auto simp: Let_def split: if_splits)
    then show ?thesis
      using g12 by simp
  next
    case False
    obtain sb w3 where s2: "stat path w2 = (sb, w3)"
      by (cases "stat path w2")
    have g3: "store_grows w2 w3"
      using syscalls_store_grows(2) [of w2 path] s2 by simp
    note g123 = store_grows_trans [OF g12 g3]
    show ?thesis
    proof (cases "case sb of None \<Rightarrow> False | Some b \<Rightarrow> S_ISDIR (st_mode b)")
      case True
      then have "w' = w3"
        using Suc.prems s1 up False s2 by (auto simp: Let_def split: if_splits)
      then show ?thesis
        using g123 by simp
    next
      case nd: False
      obtain r' w4 where mk: "mkdir path m w3 = (r', w4)"
        by (cases "mkdir path m w3")
      have g4: "store_grows w3 w4"
        using syscalls_store_grows(7) [of w3 path m] mk by simp
      have "w' = w4"
        using Suc.prems s1 up False s2 nd mk by (auto simp: Let_def split: if_splits)
      then show ?thesis
        using store_grows_trans [OF g123 g4] by simp
    qed
  qed
qed

lemma dir_loop_paths:
  assumes "\<And>s w r w'. walk s w = Some (r, w') \<Longrightarrow> paths w \<subseteq> paths w'"
      and "dir_loop walk source names res w = Some (r, w')"
  shows "paths w \<subseteq> paths w'"
  using assms(2)
proof (induction names arbitrary: res w)
  case Nil
  then show ?case by simp
next
  case (Cons name names)
  show ?case
  proof (cases "\<not> res \<or> ignore_dir name")
    case True
    then show ?thesis
      using Cons by (auto split: if_splits)
  next
    case False
    obtain r1 w1 where c: "walk (join_path source name) w = Some (r1, w1)"
      using Cons.prems False by (auto split: option.splits)
    have "paths w \<subseteq> paths w1"
      using c by (rule assms(1))
    moreover have "paths w1 \<subseteq> paths w'"
      using Cons.prems False c Cons.IH [of r1 w1] by simp
    ultimately show ?thesis
      by blast
  qed
qed

lemma paths_cmask [simp]: "paths (w\<lparr>cmask := m\<rparr>) = paths w"
  by (simp add: paths_def)

lemma paths_counters [simp]:
  "paths (w\<lparr>total_bytes := t\<rparr>) = paths w" "paths (w\<lparr>bytes_copied := b\<rparr>) = paths w"
  by (simp_all add: paths_def)

lemma process_file_paths:
  "process_file n cfg pf source root prev_root w = Some (r, w') \<Longrightarrow> paths w \<subseteq> paths w'"
proof (induction n arbitrary: source w r w')
  case 0
  then show ?case by (simp add: process_file.simps)
next
  case (Suc n)
  obtain r1 w1 where l: "lstat source w = (r1, w1)"
    by (cases "lstat source w")
  have p1: "paths w \<subseteq> paths w1"
    using store_grows_paths [OF syscalls_store_grows(1) [of w source]] l by simp
  show ?case
  proof (cases r1)
    case None
    then show ?thesis
      using Suc.prems l p1 by (simp add: process_file.simps)
  next
    case (Some st)
    note l' = l [unfolded Some]
    show ?thesis
    proof (cases "excluded cfg pf source")
      case True
      then show ?thesis
        using Suc.prems l' p1 by (simp add: process_file.simps)
    next
      case ne: False
      consider (dir) "S_ISDIR (st_mode st)"
        | (reg) "\<not> S_ISDIR (st_mode st)" "S_ISREG (st_mode st)"
        | (other) "\<not> S_ISDIR (st_mode st)" "\<not> S_ISREG (st_mode st)"
        by blast
      then show ?thesis
      proof cases
        case dir
        note u = process_file_directory_unfold [OF l' ne dir, of n root prev_root]
        obtain rc w3 where mk: "rmkdir n (join_path root source) (st_mode st OR S_IRWXU)
                                  (w1\<lparr>cmask := 0\<rparr>) = Some (rc, w3)"
          using Suc.prems u by (auto split: option.splits)
        have p3: "paths w1 \<subseteq> paths w3"
          using store_grows_paths [OF rmkdir_store_grows [OF mk]] by simp
        show ?thesis
        proof (cases "rc < 0")
          case True
          then show ?thesis
            using Suc.prems u mk p1 p3 by auto
        next
          case rc: False
          obtain o5 w5 where od: "opendir source (w3\<lparr>cmask := cmask w1\<rparr>) = (o5, w5)"
            by (cases "opendir source (w3\<lparr>cmask := cmask w1\<rparr>)")
          have p5: "paths w3 \<subseteq> paths w5"
            using store_grows_paths
                    [OF syscalls_store_grows(12) [of "w3\<lparr>cmask := cmask w1\<rparr>" source]] od
            by simp
          show ?thesis
          proof (cases o5)
            case None
            then show ?thesis
              using Suc.prems u mk rc od p1 p3 p5 by auto
          next
            case (Some names)
            obtain result w6 where dl:
              "dir_loop (\<lambda>s. process_file n cfg pf s root prev_root) source names True w5
                 = Some (result, w6)"
              using Suc.prems u mk rc od Some by (auto split: option.splits)
            have p6: "paths w5 \<subseteq> paths w6"
              using dir_loop_paths [OF _ dl] Suc.IH by blast
            show ?thesis
            proof (cases result)
              case False
              then show ?thesis
                using Suc.prems u mk rc od Some dl p1 p3 p5 p6 by auto
            next
              case True
              obtain o7 w7 where ch: "chmod (join_path root source)
                                        ((st_mode st OR S_IRWXU) AND NOT (cmask w1)) w6 = (o7, w7)"
                by (cases "chmod (join_path root source)
                             ((st_mode st OR S_IRWXU) AND NOT (cmask w1)) w6")
              have p7: "paths w6 \<subseteq> paths w7"
                using store_grows_paths
                        [OF syscalls_store_grows(6) [of w6 "join_path root source"
                              "(st_mode st OR S_IRWXU) AND NOT (cmask w1)"]] ch
                by simp
              show ?thesis
              proof (cases o7)
                case None
                then show ?thesis
                  using Suc.prems u mk rc od Some dl True ch p1 p3 p5 p6 p7 by auto
              next
                case (Some u7)
                obtain r8 s8 w8 where ct:
                  "copy_time (join_path root source) (st\<lparr>st_mode := st_mode st OR S_IRWXU\<rparr>) w7
                     = (r8, s8, w8)"
                  by (cases "copy_time (join_path root source)
                               (st\<lparr>st_mode := st_mode st OR S_IRWXU\<rparr>) w7")
                have p8: "paths w7 \<subseteq> paths w8"
                  using store_grows_paths
                          [OF copy_time_store_grows [of w7 "join_path root source"
                                "st\<lparr>st_mode := st_mode st OR S_IRWXU\<rparr>"]] ct
                  by simp
                have "w' = w8"
                  using Suc.prems u mk rc od \<open>o5 = Some names\<close> dl True ch Some ct by simp
                then show ?thesis
                  using p1 p3 p5 p6 p7 p8 by blast
              qed
            qed
          qed
        qed
      next
        case reg
        define w2 where
          "w2 = (if count_bytes cfg then w1\<lparr>total_bytes := total_bytes w1 + st_size st\<rparr> else w1)"
        define pd where "pd = map_option (\<lambda>p. join_path p source) prev_root"
        note u = process_file_regular_unfold [OF l' ne reg(2) w2_def,
                   where root = root and prev_root = prev_root and n = n,
                   folded pd_def]
        have p2: "paths w2 = paths w1"
          by (simp add: w2_def)
        have pa: "paths w2 \<subseteq> paths (after_comparison cfg pd w2)"
          by (auto simp: after_comparison_def split: option.splits
                   intro: store_grows_paths [OF syscalls_store_grows(2), THEN subsetD])
        show ?thesis
        proof (cases "fresh_copy_needed cfg pd st w2")
          case True
          then obtain w5 where
            c: "copy_and_restore pf source (join_path root source) st
                  (after_comparison cfg pd w2) = Some (r, w5)"
            and "paths w' = paths w5"
            using Suc.prems u by (auto split: if_splits)
          moreover have "paths (after_comparison cfg pd w2) \<subseteq> paths w5"
            using store_grows_paths [OF copy_and_restore_store_grows [OF c]] .
          ultimately show ?thesis
            using p1 p2 pa by blast
        next
          case False
          then obtain p where p: "prev_root = Some p"
            by (cases prev_root) (auto simp: fresh_copy_needed_def pd_def)
          have "w' = snd (symlink_file (join_path p source) (join_path root source)
                            (snd (stat (join_path p source) w2)))"
            using Suc.prems u False p by (simp add: prod_eq_iff)
          moreover have "paths w2 \<subseteq> paths (snd (stat (join_path p source) w2))"
            by (rule store_grows_paths [OF syscalls_store_grows(2)])
          moreover have "paths (snd (stat (join_path p source) w2))
                           \<subseteq> paths (snd (symlink_file (join_path p source) (join_path root source)
                                     (snd (stat (join_path p source) w2))))"
            by (rule store_grows_paths [OF symlink_file_store_grows])
          ultimately show ?thesis
            using p1 p2 by blast
        qed
      next
        case other
        have g: "store_grows w1 (snd (mkfifo d md w1))"
                "store_grows w1 (snd (mknod d md dv w1))"
                "store_grows w1 (snd (readlink d k w1))" for d md dv k
          by (rule syscalls_store_grows)+
        have "store_grows w1 w'"
        proof (cases "S_ISFIFO (st_mode st)")
          case True
          then show ?thesis
            using Suc.prems l' ne other g(1) [of "join_path root source" "st_mode st"]
            by (auto simp: process_file.simps Let_def split: prod.splits)
        next
          case nf: False
          show ?thesis
          proof (cases "S_ISLNK (st_mode st)")
            case False
            then show ?thesis
              using Suc.prems l' ne other nf
                g(2) [of "join_path root source" "st_mode st" "st_rdev st"]
              by (auto simp: process_file.simps Let_def store_grows_refl
                       split: prod.splits if_splits)
          next
            case True
            obtain o2 w2 where rl: "readlink source PATH_MAX w1 = (o2, w2)"
              by (cases "readlink source PATH_MAX w1")
            have g2: "store_grows w1 w2"
              using g(3) [of source PATH_MAX] rl by simp
            show ?thesis
            proof (cases o2)
              case None
              then show ?thesis
                using Suc.prems l' ne other nf True rl g2
                by (simp add: process_file.simps)
            next
              case (Some buffer)
              obtain o3 w3 where sl: "symlink buffer (join_path root source) w2 = (o3, w3)"
                by (cases "symlink buffer (join_path root source) w2")
              have g3: "store_grows w2 w3"
                using syscalls_store_grows(10) [of w2 buffer "join_path root source"] sl by simp
              show ?thesis
              proof (cases o3)
                case None
                then show ?thesis
                  using Suc.prems l' ne other nf True rl Some sl store_grows_trans [OF g2 g3]
                  by (simp add: process_file.simps)
              next
                case s3: (Some u3)
                obtain o4 w4 where lc: "lchown (join_path root source) (st_uid st) (st_gid st) w3
                                          = (o4, w4)"
                  by (cases "lchown (join_path root source) (st_uid st) (st_gid st) w3")
                have g4: "store_grows w3 w4"
                  using syscalls_store_grows(5) [of w3 "join_path root source" "st_uid st"
                          "st_gid st"] lc
                  by simp
                have "w' = w4"
                  using Suc.prems l' ne other nf True rl Some sl s3 lc
                  by (cases o4) (simp_all add: process_file.simps)
                then show ?thesis
                  using store_grows_trans [OF store_grows_trans [OF g2 g3] g4] by simp
              qed
            qed
          qed
        qed
        then show ?thesis
          using p1 store_grows_paths by blast
      qed
    qed
  qed
qed

lemma store_grows_cmask: "store_grows w w' \<Longrightarrow> cmask w' = cmask w"
proof -
  assume "store_grows w w'"
  then have "w' = w\<lparr>files := files w', trace := trace w'\<rparr>"
    by (simp add: store_grows_def)
  then show ?thesis
    by (metis (no_types) world.select_convs(2) world.surjective world.update_convs(1,8))
qed

lemma option_pairI: "map_option fst x = Some a \<Longrightarrow> x = Some (a, snd (the x))"
  by (cases x) auto

text \<open>
  Claim C9. Let the walk process a directory: it is examined, not excluded, its
  destination is made and it is opened. Let the entries read before \<open>name\<close> be processed
  with success, leaving the world \<open>w6\<close>, and let the processing of \<open>name\<close> fail, leaving
  \<open>w7\<close>. Then the processing of the directory returns failure in the very world \<open>w7\<close>:
  nothing is done after the failing child, so no entry after it is processed and the
  directory's own mode and times are not set. In the loop of a parent that reaches the
  directory as its entry \<open>pname\<close>, the failure ends that loop too, in the same world, with
  the parent's remaining entries unprocessed. And no path is removed: the store of \<open>w7\<close>
  has every path that the store had at the start and after the earlier children.
\<close>

theorem process_file_fail_fast:
  assumes "fst (lstat source w) = Some st"
      and "S_ISDIR (st_mode st)"
      and "\<not> excluded cfg pf source"
      and "rmkdir n (join_path root source) (st_mode st OR S_IRWXU)
             ((snd (lstat source w))\<lparr>cmask := 0\<rparr>) = Some (rc, w3)"
      and "\<not> rc < 0"
      and "opendir source (w3\<lparr>cmask := cmask w\<rparr>) = (Some (before @ name # after), w5)"
      and "dir_loop (\<lambda>s. process_file n cfg pf s root prev_root) source before True w5
             = Some (True, w6)"
      and "\<not> ignore_dir name"
      and "process_file n cfg pf (join_path source name) root prev_root w6 = Some (False, w7)"
      and "\<not> ignore_dir pname"
      and "join_path psource pname = source"
  shows "process_file (Suc n) cfg pf source root prev_root w = Some (False, w7)
         \<and> dir_loop (\<lambda>s. process_file (Suc n) cfg pf s root prev_root) psource
               (pname # pafter) True w = Some (False, w7)
         \<and> paths w \<subseteq> paths w6 \<and> paths w6 \<subseteq> paths w7"
proof -
  obtain w1 where l: "lstat source w = (Some st, w1)"
    using assms(1) by (cases "lstat source w") auto
  have g1: "store_grows w w1"
    using syscalls_store_grows(1) [of w source] l by simp
  have cm: "cmask w1 = cmask w"
    using g1 by (rule store_grows_cmask)
  have mk: "rmkdir n (join_path root source) (st_mode st OR S_IRWXU) (w1\<lparr>cmask := 0\<rparr>)
              = Some (rc, w3)"
    using assms(4) l by simp
  have stop: "dir_loop walk src xs False w' = Some (False, w')" for walk src xs w'
    by (cases xs) simp_all
  have loop: "dir_loop (\<lambda>s. process_file n cfg pf s root prev_root) source
                (before @ name # after) True w5 = Some (False, w7)"
    using assms(7,8,9) stop by (simp add: dir_loop_append)
  have run: "process_file (Suc n) cfg pf source root prev_root w = Some (False, w7)"
    using process_file_directory_unfold [OF l assms(3,2), of n root prev_root]
      mk assms(5,6) cm loop
    by simp
  have parent: "dir_loop (\<lambda>s. process_file (Suc n) cfg pf s root prev_root) psource
                  (pname # pafter) True w = Some (False, w7)"
    using run assms(10,11) stop by simp
  have p3: "paths w1 \<subseteq> paths w3"
    using store_grows_paths [OF rmkdir_store_grows [OF mk]] by simp
  have p5: "paths w3 \<subseteq> paths w5"
    using store_grows_paths [OF syscalls_store_grows(12) [of "w3\<lparr>cmask := cmask w\<rparr>" source]]
      assms(6)
    by simp
  have p6: "paths w5 \<subseteq> paths w6"
    using dir_loop_paths [OF _ assms(7)] process_file_paths by blast
  have p7: "paths w6 \<subseteq> paths w7"
    using assms(9) by (rule process_file_paths)
  have "paths w \<subseteq> paths w6"
    using store_grows_paths [OF g1] p3 p5 p6 by blast
  then show ?thesis
    using run parent p7 by simp
qed

text \<open>
  The directory \<^verbatim>\<open>/s\<close> with the entries \<^verbatim>\<open>a\<close> (a fifo), \<^verbatim>\<open>bad\<close> (of no known file
  type) and \<^verbatim>\<open>c\<close>: the walk recreates \<^verbatim>\<open>a\<close>, fails at \<^verbatim>\<open>bad\<close>, and never comes to
  \<^verbatim>\<open>c\<close>; the new \<^verbatim>\<open>a\<close> stays.
\<close>

theorem process_file_fail_fast_witness:
  "\<exists>w'. process_file (Suc (Suc 0)) default_config linux_utc ''/s'' ''/b'' None odd_child
           = Some (False, w')
      \<and> dir_loop (\<lambda>s. process_file (Suc (Suc 0)) default_config linux_utc s ''/b'' None) ''/''
           [''s'', ''b''] True odd_child = Some (False, w')
      \<and> paths odd_child \<subseteq> paths w'
      \<and> ''/b/s/a'' \<in> paths w' \<and> ''/b/s/c'' \<notin> paths w'
      \<and> last (trace w') = (Sys_lstat ''/s/bad'', True)"
proof -
  define st where "st = stat_of (mknode 0x41ED 0 1 [])"
  define w3 where
    "w3 = snd (the (rmkdir (Suc 0) (join_path ''/b'' ''/s'') (st_mode st OR S_IRWXU)
                      ((snd (lstat ''/s'' odd_child))\<lparr>cmask := 0\<rparr>)))"
  define w5 where "w5 = snd (opendir ''/s'' (w3\<lparr>cmask := cmask odd_child\<rparr>))"
  define w6 where
    "w6 = snd (the (dir_loop (\<lambda>s. process_file (Suc 0) default_config linux_utc s ''/b'' None)
                      ''/s'' [''.'', ''..'', ''a''] True w5))"
  define w7 where
    "w7 = snd (the (process_file (Suc 0) default_config linux_utc (join_path ''/s'' ''bad'')
                      ''/b'' None w6))"
  have h1: "fst (lstat ''/s'' odd_child) = Some st"
    unfolding st_def by code_simp
  have h2: "S_ISDIR (st_mode st)"
    unfolding st_def by code_simp
  have h3: "\<not> excluded default_config linux_utc ''/s''"
    by code_simp
  have "map_option fst (rmkdir (Suc 0) (join_path ''/b'' ''/s'') (st_mode st OR S_IRWXU)
                          ((snd (lstat ''/s'' odd_child))\<lparr>cmask := 0\<rparr>)) = Some 0"
    unfolding st_def by code_simp
  then have h4: "rmkdir (Suc 0) (join_path ''/b'' ''/s'') (st_mode st OR S_IRWXU)
                   ((snd (lstat ''/s'' odd_child))\<lparr>cmask := 0\<rparr>) = Some (0, w3)"
    unfolding w3_def by (rule option_pairI)
  have h5: "\<not> (0::int) < 0"
    by simp
  have "fst (opendir ''/s'' (w3\<lparr>cmask := cmask odd_child\<rparr>))
          = Some ([''.'', ''..'', ''a''] @ ''bad'' # [''c''])"
    unfolding w3_def st_def by code_simp
  then have h6: "opendir ''/s'' (w3\<lparr>cmask := cmask odd_child\<rparr>)
                   = (Some ([''.'', ''..'', ''a''] @ ''bad'' # [''c'']), w5)"
    unfolding w5_def by (simp add: prod_eq_iff)
  have "map_option fst (dir_loop (\<lambda>s. process_file (Suc 0) default_config linux_utc s ''/b'' None)
                          ''/s'' [''.'', ''..'', ''a''] True w5) = Some True"
    unfolding w5_def w3_def st_def by code_simp
  then have h7: "dir_loop (\<lambda>s. process_file (Suc 0) default_config linux_utc s ''/b'' None)
                   ''/s'' [''.'', ''..'', ''a''] True w5 = Some (True, w6)"
    unfolding w6_def by (rule option_pairI)
  have h8: "\<not> ignore_dir ''bad''" and h10: "\<not> ignore_dir ''s''"
    by (simp_all add: ignore_dir_def)
  have ev: "(case process_file (Suc 0) default_config linux_utc (join_path ''/s'' ''bad'')
                    ''/b'' None w6 of
               None \<Rightarrow> False
             | Some (r, w') \<Rightarrow>
                 \<not> r \<and> ''/b/s/a'' \<in> paths w' \<and> ''/b/s/c'' \<notin> paths w'
                   \<and> last (trace w') = (Sys_lstat ''/s/bad'', True))"
    unfolding w6_def w5_def w3_def st_def by code_simp
  then have h9: "process_file (Suc 0) default_config linux_utc (join_path ''/s'' ''bad'')
                   ''/b'' None w6 = Some (False, w7)"
    unfolding w7_def by (auto split: option.splits)
  have e: "''/b/s/a'' \<in> paths w7" "''/b/s/c'' \<notin> paths w7"
          "last (trace w7) = (Sys_lstat ''/s/bad'', True)"
    using ev unfolding w7_def by (auto split: option.splits)
  have h11: "join_path ''/'' ''s'' = ''/s''"
    by (simp add: join_path_def)
  note t = process_file_fail_fast [OF h1 h2 h3 h4 h5 h6 h7 h8 h9 h10 h11, of "[''b'']"]
  show ?thesis
    using t e by (intro exI [of _ w7]) blast
qed


section \<open>Regular files: the copy and the link\<close>

text \<open>What \<^verbatim>\<open>copy_file\<close> and \<^verbatim>\<open>copy_time\<close> log, and when the copy returns.\<close>

lemma open_trace:
  "trace (snd (open_rdonly p w)) = trace w @ [(Sys_open_rdonly p, fst (open_rdonly p w) \<noteq> None)]"
  "trace (snd (open_creat p m w)) = trace w @ [(Sys_open_creat p m, fst (open_creat p m w) \<noteq> None)]"
  by (simp_all add: open_rdonly_def open_creat_def trace_sys_call)

lemma open_creat_path:
  "fst (open_creat p m w) = Some q \<Longrightarrow> p \<in> paths (snd (open_creat p m w))"
  by (auto simp: open_creat_def sys_call_def log_call_def paths_def
           split: if_splits option.splits prod.splits
           dest!: create_Some dest: map_of_SomeD intro: rev_image_eqI)

lemma copy_file_opened:
  assumes "copy_file pf source dest s w = Some (r, w')"
  shows "(\<exists>evs. trace w' = trace w @ (Sys_open_rdonly source, True)
                   # (Sys_open_creat dest (st_mode s), True) # evs)
         \<and> dest \<in> paths w'"
proof -
  obtain r1 w1 where o1: "open_rdonly source w = (r1, w1)"
    by (cases "open_rdonly source w")
  obtain r2 w2 where o2: "open_creat dest (st_mode s) w1 = (r2, w2)"
    by (cases "open_creat dest (st_mode s) w1")
  obtain r3 w3 where o3: "malloc (st_blksize s) w2 = (r3, w3)"
    by (cases "malloc (st_blksize s) w2")
  from assms o1 o2 obtain inp out where io: "r1 = Some inp" "r2 = Some out"
    by (auto simp: copy_file_def split: option.splits)
  have t1: "trace w1 = trace w @ [(Sys_open_rdonly source, True)]"
    using open_trace(1) [of source w] o1 io by simp
  have t2: "trace w2 = trace w1 @ [(Sys_open_creat dest (st_mode s), True)]"
    using open_trace(2) [of dest "st_mode s" w1] o2 io by simp
  have p2: "dest \<in> paths w2"
    using open_creat_path [of dest "st_mode s" w1 out] o2 io by simp
  have c: "store_grows w2 w3"
    using syscalls_store_grows(15) [of w2 "st_blksize s"] o3 by simp
  have g: "store_grows w2 w'"
  proof (cases r3)
    case None
    then have "w' = w3"
      using assms o1 o2 o3 io by (simp add: copy_file_def)
    then show ?thesis
      using c by simp
  next
    case (Some buffer)
    then have "w' = snd (copy_loop (sizeof_char_ptr pf) source inp out 0 w3)"
      using assms o1 o2 o3 io by (simp add: copy_file_def prod_eq_iff)
    then show ?thesis
      using store_grows_trans [OF c copy_loop_store_grows] by simp
  qed
  obtain evs where "trace w' = trace w2 @ evs"
    using store_grows_trace [OF g] by blast
  then have "trace w' = trace w @ (Sys_open_rdonly source, True)
                          # (Sys_open_creat dest (st_mode s), True) # evs"
    using t1 t2 by simp
  moreover have "dest \<in> paths w'"
    using store_grows_paths [OF g] p2 by blast
  ultimately show ?thesis
    by blast
qed

lemma copy_file_returns:
  "(\<exists>x. copy_file pf source dest s w = Some x)
     = (fst (open_rdonly source w) \<noteq> None
        \<and> fst (open_creat dest (st_mode s) (snd (open_rdonly source w))) \<noteq> None)"
  by (auto simp: copy_file_def split: option.splits prod.splits)

lemma copy_time_calls:
  assumes "copy_time f s w = (r, s', w')"
  shows "\<exists>ok1 ok2 ok3 m. trace w' = trace w @ [(Sys_utime f (st_atime s) (st_mtime s), ok1),
                                            (Sys_chown f (st_uid s) (st_gid s), ok2),
                                            (Sys_chmod f m, ok3)]
           \<and> r = (ok1 \<and> ok2 \<and> ok3) \<and> (ok2 \<longrightarrow> m = st_mode s)"
proof -
  obtain r1 w1 where u: "utime f (st_atime s) (st_mtime s) w = (r1, w1)"
    by (cases "utime f (st_atime s) (st_mtime s) w")
  obtain r2 w2 where c: "chown f (st_uid s) (st_gid s) w1 = (r2, w2)"
    by (cases "chown f (st_uid s) (st_gid s) w1")
  define m where "m = (if r2 = None then st_mode s AND NOT (S_ISUID OR S_ISGID) else st_mode s)"
  obtain r3 w3 where h: "chmod f m w2 = (r3, w3)"
    by (cases "chmod f m w2")
  have 1: "trace w1 = trace w @ [(Sys_utime f (st_atime s) (st_mtime s), r1 \<noteq> None)]"
    using utime_trace [of f "st_atime s" "st_mtime s" w] u by simp
  have 2: "trace w2 = trace w1 @ [(Sys_chown f (st_uid s) (st_gid s), r2 \<noteq> None)]"
    using chown_trace [of f "st_uid s" "st_gid s" w1] c by simp
  have 3: "trace w3 = trace w2 @ [(Sys_chmod f m, r3 \<noteq> None)]"
    using chmod_trace [of f m w2] h by simp
  have "w' = w3" "r = (r1 \<noteq> None \<and> r2 \<noteq> None \<and> r3 \<noteq> None)"
    using assms u c h by (auto simp: copy_time_def m_def Let_def split: if_splits)
  then show ?thesis
    using 1 2 3 m_def by auto
qed

lemma copy_and_restore_True:
  assumes "copy_and_restore pf source dest st w = Some (True, w')"
  shows "\<exists>evs. trace w' = evs @ [(Sys_utime dest (st_atime st) (st_mtime st), True),
                                (Sys_chown dest (st_uid st) (st_gid st), True),
                                (Sys_chmod dest (st_mode st), True)]"
proof -
  from assms obtain w4 s' where
    c: "copy_file pf source dest st w = Some (True, w4)"
    and t: "copy_time dest st w4 = (True, s', w')"
    by (auto simp: copy_and_restore_def split: option.splits prod.splits bool.splits)
  from copy_time_calls [OF t] show ?thesis
    by auto
qed

lemma copy_and_restore_opened:
  assumes "copy_and_restore pf source dest st w = Some (r, w')"
  shows "(\<exists>evs. trace w' = trace w @ (Sys_open_rdonly source, True)
                   # (Sys_open_creat dest (st_mode st), True) # evs)
         \<and> dest \<in> paths w'"
proof -
  from assms obtain r4 w4 where
    c: "copy_file pf source dest st w = Some (r4, w4)"
    and t: "w' = w4 \<or> w' = snd (snd (copy_time dest st w4))"
    by (auto simp: copy_and_restore_def split: option.splits prod.splits bool.splits)
  have g: "store_grows w4 w'"
    using t store_grows_refl copy_time_store_grows by auto
  obtain evs where e: "trace w4 = trace w @ (Sys_open_rdonly source, True)
                          # (Sys_open_creat dest (st_mode st), True) # evs"
    and p: "dest \<in> paths w4"
    using copy_file_opened [OF c] by blast
  obtain evs' where "trace w' = trace w4 @ evs'"
    using store_grows_trace [OF g] by blast
  then have "trace w' = trace w @ (Sys_open_rdonly source, True)
                          # (Sys_open_creat dest (st_mode st), True) # (evs @ evs')"
    using e by simp
  moreover have "dest \<in> paths w'"
    using store_grows_paths [OF g] p by blast
  ultimately show ?thesis
    by blast
qed

lemma copy_and_restore_returns:
  "(\<exists>x. copy_and_restore pf source dest st w = Some x)
     = (fst (open_rdonly source w) \<noteq> None
        \<and> fst (open_creat dest (st_mode st) (snd (open_rdonly source w))) \<noteq> None)"
proof -
  have "(\<exists>x. copy_and_restore pf source dest st w = Some x)
          = (\<exists>x. copy_file pf source dest st w = Some x)"
    by (cases "copy_file pf source dest st w")
       (auto simp: copy_and_restore_def split: prod.splits bool.splits)
  then show ?thesis
    by (simp only: copy_file_returns)
qed


text \<open>
  The bytes written. When every call of the loop succeeds and the count of a read is
  not zero, the loop appends the bytes left to read to the destination.
\<close>

lemma read_fd_files: "files (snd (read_fd source rest k w)) = files w"
  by (simp add: read_fd_def sys_call_def log_call_def)

lemma read_fd_trace:
  "trace (snd (read_fd source rest k w))
     = trace w @ [(Sys_read source k, fst (read_fd source rest k w) \<noteq> None)]"
  by (simp add: read_fd_def trace_sys_call)

lemma read_fd_Some: "fst (read_fd source rest k w) = Some chunk \<Longrightarrow> chunk = take k rest"
  by (auto simp: read_fd_def sys_call_def split: if_splits)

lemma write_fd_trace:
  "trace (snd (write_fd q off chunk w))
     = trace w @ [(Sys_write q (length chunk), fst (write_fd q off chunk w) \<noteq> None)]"
  by (simp add: write_fd_def trace_sys_call)

lemma write_fd_Some:
  "fst (write_fd q off chunk w) = Some u \<Longrightarrow> map_of (files w) q = Some no \<Longrightarrow>
     \<exists>no'. map_of (files (snd (write_fd q off chunk w))) q = Some no'
          \<and> content no' = write_at off chunk (content no)"
  by (auto simp: write_fd_def sys_call_def log_call_def map_of_map_entry split: if_splits)

lemma write_at_end: "write_at (length old) chunk old = old @ chunk"
  by (simp add: write_at_def)

lemma copy_loop_content:
  assumes "0 < k"
      and "copy_loop k source rest out off w = (r, w')"
      and "trace w' = trace w @ evs" and "\<forall>e\<in>set evs. snd e"
      and "map_of (files w) out = Some no" and "off = length (content no)"
  shows "\<exists>no'. map_of (files w') out = Some no' \<and> content no' = content no @ rest"
  using assms
proof (induction k source rest out off w arbitrary: evs no rule: copy_loop.induct)
  case (1 k source rest out off w)
  obtain rr w1 where rd: "read_fd source rest k w = (rr, w1)"
    by (cases "read_fd source rest k w")
  have f1: "files w1 = files w"
    using read_fd_files [of source rest k w] rd by simp
  have t1: "trace w1 = trace w @ [(Sys_read source k, rr \<noteq> None)]"
    using read_fd_trace [of source rest k w] rd by simp
  show ?case
  proof (cases rr)
    case None
    then have "w' = w1"
      using "1.prems"(2) rd by (subst (asm) copy_loop.simps) simp
    then have "evs = [(Sys_read source k, False)]"
      using t1 None "1.prems"(3) by simp
    then show ?thesis
      using "1.prems"(4) by simp
  next
    case (Some chunk)
    have chunk: "chunk = take k rest"
      using read_fd_Some [of source rest k w chunk] rd Some by simp
    show ?thesis
    proof (cases "chunk = []")
      case True
      then have "w' = w1"
        using "1.prems"(2) rd Some by (subst (asm) copy_loop.simps) simp
      moreover have "rest = []"
        using True chunk "1.prems"(1) by simp
      ultimately show ?thesis
        using f1 "1.prems"(5) by simp
    next
      case False
      obtain wr w2 where wr: "write_fd out off chunk w1 = (wr, w2)"
        by (cases "write_fd out off chunk w1")
      have t2: "trace w2 = trace w1 @ [(Sys_write out (length chunk), wr \<noteq> None)]"
        using write_fd_trace [of out off chunk w1] wr by simp
      show ?thesis
      proof (cases wr)
        case None
        then have "w' = w2"
          using "1.prems"(2) rd Some False wr by (subst (asm) copy_loop.simps) simp
        then have "evs = [(Sys_read source k, True), (Sys_write out (length chunk), False)]"
          using t1 t2 None Some "1.prems"(3) by simp
        then show ?thesis
          using "1.prems"(4) by simp
      next
        case (Some u)
        have rec: "copy_loop k source (drop (length chunk) rest) out (off + length chunk) w2
                     = (r, w')"
          using "1.prems"(2) rd \<open>rr = Some chunk\<close> False wr Some
          by (subst (asm) copy_loop.simps) simp
        obtain evs2 where e2: "trace w' = trace w2 @ evs2"
          using store_grows_trace
                  [OF copy_loop_store_grows
                        [of w2 k source "drop (length chunk) rest" out "off + length chunk"]]
            rec
          by auto
        have "evs = (Sys_read source k, True) # (Sys_write out (length chunk), True) # evs2"
          using t1 t2 e2 Some \<open>rr = Some chunk\<close> "1.prems"(3) by simp
        then have all2: "\<forall>e\<in>set evs2. snd e"
          using "1.prems"(4) by simp
        obtain no2 where no2: "map_of (files w2) out = Some no2"
                              "content no2 = write_at off chunk (content no)"
          using write_fd_Some [of out off chunk w1 u no] wr Some f1 "1.prems"(5)
          by auto
        have c2: "content no2 = content no @ chunk"
          using no2(2) "1.prems"(6) by (simp add: write_at_end)
        have off2: "off + length chunk = length (content no2)"
          using c2 "1.prems"(6) by simp
        obtain no' where "map_of (files w') out = Some no'"
                         "content no' = content no2 @ drop (length chunk) rest"
          using "1.IH" [OF rd [symmetric] \<open>rr = Some chunk\<close> False wr [symmetric] Some
                           "1.prems"(1) rec e2 all2 no2(1) off2]
          by blast
        moreover have "chunk @ drop (length chunk) rest = rest"
          unfolding chunk by (simp add: min_def append_eq_conv_conj)
        ultimately show ?thesis
          using c2 by simp
      qed
    qed
  qed
qed

lemma open_rdonly_Some:
  "fst (open_rdonly p w) = Some inp \<Longrightarrow> map_of (files w) p = Some n \<Longrightarrow>
     \<not> S_ISLNK (st_mode (meta n)) \<Longrightarrow> inp = content n"
  by (auto simp: open_rdonly_def sys_call_def resolve_def split: if_splits option.splits)

lemma open_rdonly_files: "files (snd (open_rdonly p w)) = files w"
  by (auto simp: open_rdonly_def sys_call_def log_call_def split: if_splits option.splits)

lemma open_creat_new:
  "fst (open_creat p m w) = Some out \<Longrightarrow> map_of (files w) p = None \<Longrightarrow>
     out = p \<and> (\<exists>nd. files (snd (open_creat p m w)) = files w @ [(p, nd)] \<and> content nd = [])"
  by (auto simp: open_creat_def sys_call_def log_call_def split: if_splits option.splits
           dest!: create_Some)

lemma malloc_result:
  "files (snd (malloc k w)) = files w"
  "trace (snd (malloc k w)) = trace w @ [(Sys_malloc k, fst (malloc k w) \<noteq> None)]"
  by (auto simp: malloc_def sys_call_def log_call_def split: if_splits)

lemma copy_file_content:
  assumes "0 < sizeof_char_ptr pf"
      and "copy_file pf source dest s w = Some (r, w')"
      and "trace w' = trace w @ evs" and "\<forall>e\<in>set evs. snd e"
      and "map_of (files w) source = Some ns" and "\<not> S_ISLNK (st_mode (meta ns))"
      and "map_of (files w) dest = None"
  shows "\<exists>nd. map_of (files w') dest = Some nd \<and> content nd = content ns"
proof -
  obtain r1 w1 where o1: "open_rdonly source w = (r1, w1)"
    by (cases "open_rdonly source w")
  obtain r2 w2 where o2: "open_creat dest (st_mode s) w1 = (r2, w2)"
    by (cases "open_creat dest (st_mode s) w1")
  obtain r3 w3 where o3: "malloc (st_blksize s) w2 = (r3, w3)"
    by (cases "malloc (st_blksize s) w2")
  from assms(2) o1 o2 obtain inp out where io: "r1 = Some inp" "r2 = Some out"
    by (auto simp: copy_file_def split: option.splits)
  have f1: "files w1 = files w"
    using open_rdonly_files [of source w] o1 by simp
  have inp: "inp = content ns"
    using open_rdonly_Some [of source w inp ns] o1 io assms(5,6) by simp
  obtain nd0 where out: "out = dest" "files w2 = files w @ [(dest, nd0)]" "content nd0 = []"
    using open_creat_new [of dest "st_mode s" w1 out] o2 io f1 assms(7) by auto
  have t1: "trace w1 = trace w @ [(Sys_open_rdonly source, True)]"
    using open_trace(1) [of source w] o1 io by simp
  have t2: "trace w2 = trace w1 @ [(Sys_open_creat dest (st_mode s), True)]"
    using open_trace(2) [of dest "st_mode s" w1] o2 io by simp
  have t3: "trace w3 = trace w2 @ [(Sys_malloc (st_blksize s), r3 \<noteq> None)]"
    using malloc_result(2) [of "st_blksize s" w2] o3 by simp
  have f3: "files w3 = files w2"
    using malloc_result(1) [of "st_blksize s" w2] o3 by simp
  have look: "map_of (files w3) dest = Some nd0"
    using f3 out(2) assms(7) by (simp add: map_add_def split: option.splits)
  show ?thesis
  proof (cases r3)
    case None
    then have "w' = w3"
      using assms(2) o1 o2 o3 io by (simp add: copy_file_def)
    then have "evs = [(Sys_open_rdonly source, True), (Sys_open_creat dest (st_mode s), True),
                      (Sys_malloc (st_blksize s), False)]"
      using t1 t2 t3 None assms(3) by simp
    then show ?thesis
      using assms(4) by simp
  next
    case (Some buffer)
    then have loop: "copy_loop (sizeof_char_ptr pf) source inp dest 0 w3 = (r, w')"
      using assms(2) o1 o2 o3 io out(1) by (simp add: copy_file_def)
    obtain evs3 where e3: "trace w' = trace w3 @ evs3"
      using store_grows_trace
              [OF copy_loop_store_grows [of w3 "sizeof_char_ptr pf" source inp dest 0]] loop
      by auto
    have "evs = (Sys_open_rdonly source, True) # (Sys_open_creat dest (st_mode s), True)
                  # (Sys_malloc (st_blksize s), True) # evs3"
      using t1 t2 t3 e3 Some assms(3) by simp
    then have all3: "\<forall>e\<in>set evs3. snd e"
      using assms(4) by simp
    have "\<exists>no'. map_of (files w') dest = Some no' \<and> content no' = content nd0 @ inp"
      by (rule copy_loop_content [OF assms(1) loop e3 all3 look]) (simp add: out(3))
    then show ?thesis
      using out(3) inp by simp
  qed
qed

lemma syscalls_content:
  "map_option content (map_of (files (snd (utime p a m w))) q)
     = map_option content (map_of (files w) q)"
  "map_option content (map_of (files (snd (chown p u g w))) q)
     = map_option content (map_of (files w) q)"
  "map_option content (map_of (files (snd (chmod p md w))) q)
     = map_option content (map_of (files w) q)"
  by (cases "map_of (files w) q";
      auto simp: utime_def chown_def chmod_def sys_call_def log_call_def map_of_update_meta
           split: if_splits option.splits)+

lemma copy_time_content:
  "map_option content (map_of (files (snd (snd (copy_time f s w)))) q)
     = map_option content (map_of (files w) q)"
  by (simp add: copy_time_def Let_def split_beta syscalls_content)

lemma copy_and_restore_content:
  assumes "0 < sizeof_char_ptr pf"
      and "copy_and_restore pf source dest st w = Some (r, w')"
      and "trace w' = trace w @ evs" and "\<forall>e\<in>set evs. snd e"
      and "map_of (files w) source = Some ns" and "\<not> S_ISLNK (st_mode (meta ns))"
      and "map_of (files w) dest = None"
  shows "map_option content (map_of (files w') dest) = Some (content ns)"
proof -
  from assms(2) obtain r4 w4 where
    c: "copy_file pf source dest st w = Some (r4, w4)"
    and t: "w' = w4 \<or> w' = snd (snd (copy_time dest st w4))"
    by (auto simp: copy_and_restore_def split: option.splits prod.splits bool.splits)
  have g: "store_grows w4 w'"
    using t store_grows_refl copy_time_store_grows by auto
  obtain evs4 where e4: "trace w4 = trace w @ evs4"
    using store_grows_trace [OF copy_file_store_grows [OF c]] by blast
  obtain evs' where e': "trace w' = trace w4 @ evs'"
    using store_grows_trace [OF g] by blast
  have "evs = evs4 @ evs'"
    using e4 e' assms(3) by simp
  then have all4: "\<forall>e\<in>set evs4. snd e"
    using assms(4) by simp
  have "\<exists>nd. map_of (files w4) dest = Some nd \<and> content nd = content ns"
    by (rule copy_file_content [OF assms(1) c e4 all4 assms(5,6,7)])
  then have "map_option content (map_of (files w4) dest) = Some (content ns)"
    by auto
  then show ?thesis
    using t copy_time_content [of dest st w4 dest] by auto
qed

lemma after_comparison_files: "files (after_comparison cfg prev_dest w) = files w"
  using stat_world by (auto simp: after_comparison_def log_call_def split: option.splits)

text \<open>
  Claim C1, as amended. For a regular source file that \<^verbatim>\<open>lstat\<close> can examine and
  that is not excluded, the walker takes the fresh-copy branch if and only if the previous
  root is unset, or a full backup is forced, or the counterpart under the previous root
  cannot be examined, or its modification time differs from the source's.

  In that branch, when source and destination can both be opened the processing returns;
  and whenever it returns, its result is that of \<^verbatim>\<open>copy_file\<close> followed, when
  \<^verbatim>\<open>copy_file\<close> returned true, by \<^verbatim>\<open>copy_time\<close>. Both files were opened, in this order,
  right after the comparison, and the destination is in the store. On success the last
  three calls are the successful \<^verbatim>\<open>utime\<close>, \<^verbatim>\<open>chown\<close> and \<^verbatim>\<open>chmod\<close> of the destination
  with the times, owner and mode of the source. When the destination did not exist, the
  count of a read is not zero and every call since the comparison succeeded, the
  destination holds the bytes of the source. The copied-bytes accumulator has grown by
  the size of the file when byte counting is enabled, and has kept its value when it is
  not.

  In every other case the processing returns the result of \<^verbatim>\<open>symlink_file\<close> on the
  counterpart, called right after the counterpart was examined, and the accumulator keeps
  its value. When the result is true the store has exactly one new entry, the
  destination: a symbolic link whose target is the path of the counterpart, or the
  counterpart's own target when the counterpart is a link. When it is false the store is
  as it was.
\<close>

theorem process_file_regular:
  fixes root :: string and prev_root :: "string option"
  assumes "fst (lstat source w) = Some st"
      and "\<not> excluded cfg pf source"
      and "S_ISREG (st_mode st)"
  defines "dest \<equiv> join_path root source"
      and "prev_dest \<equiv> map_option (\<lambda>p. join_path p source) prev_root"
      and "w2 \<equiv> (if count_bytes cfg
                  then (snd (lstat source w))\<lparr>total_bytes := total_bytes w + st_size st\<rparr>
                  else snd (lstat source w))"
  defines "w3 \<equiv> after_comparison cfg prev_dest w2"
  shows "(fresh_copy_needed cfg prev_dest st w2 \<longrightarrow>
            (fst (open_rdonly source w3) \<noteq> None
               \<and> fst (open_creat dest (st_mode st) (snd (open_rdonly source w3))) \<noteq> None
             \<longrightarrow> (\<exists>r w'. process_file (Suc n) cfg pf source root prev_root w = Some (r, w')))
          \<and> (\<forall>r w'. process_file (Suc n) cfg pf source root prev_root w = Some (r, w') \<longrightarrow>
                (\<exists>w5. copy_and_restore pf source dest st w3 = Some (r, w5)
                   \<and> w' = (if count_bytes cfg
                           then w5\<lparr>bytes_copied := bytes_copied w5 + st_size st\<rparr> else w5))
              \<and> (\<exists>evs. trace w' = trace w3 @ (Sys_open_rdonly source, True)
                                    # (Sys_open_creat dest (st_mode st), True) # evs)
              \<and> dest \<in> paths w'
              \<and> (r \<longrightarrow> (\<exists>evs. trace w' = evs @ [(Sys_utime dest (st_atime st) (st_mtime st), True),
                                                (Sys_chown dest (st_uid st) (st_gid st), True),
                                                (Sys_chmod dest (st_mode st), True)]))
              \<and> (0 < sizeof_char_ptr pf \<and> map_of (files w) dest = None
                   \<and> (\<forall>e\<in>set (drop (length (trace w3)) (trace w')). snd e)
                 \<longrightarrow> map_option content (map_of (files w') dest)
                       = map_option content (map_of (files w) source))
              \<and> bytes_copied w' = bytes_copied w + (if count_bytes cfg then st_size st else 0)))
       \<and> (\<not> fresh_copy_needed cfg prev_dest st w2 \<longrightarrow>
            (\<exists>pd r w'. prev_dest = Some pd
               \<and> process_file (Suc n) cfg pf source root prev_root w = Some (r, w')
               \<and> symlink_file pd dest (snd (stat pd w2)) = (r, w')
               \<and> (\<exists>ok evs. trace w' = trace w2 @ (Sys_stat pd, True) # (Sys_lstat pd, ok) # evs)
               \<and> bytes_copied w' = bytes_copied w
               \<and> (if r
                  then (\<exists>np nd. map_of (files w) pd = Some np \<and> map_of (files w) dest = None
                          \<and> files w' = files w @ [(dest, nd)] \<and> S_ISLNK (st_mode (meta nd))
                          \<and> content nd = (if S_ISLNK (st_mode (meta np)) then content np else pd))
                  else files w' = files w)))"
proof -
  obtain w1 where l: "lstat source w = (Some st, w1)"
    using assms(1) by (cases "lstat source w") auto
  have w1: "store_grows w w1"
    using syscalls_store_grows(1) [of w source] l by simp
  have tb: "total_bytes w1 = total_bytes w" and bc1: "bytes_copied w1 = bytes_copied w"
    using store_grows_counters [OF w1] by simp_all
  have f1: "files w1 = files w"
    using lstat_world [of source w] l by (simp add: log_call_def)
  have w2: "w2 = (if count_bytes cfg then w1\<lparr>total_bytes := total_bytes w1 + st_size st\<rparr> else w1)"
    using l tb by (simp add: w2_def)
  have bc2: "bytes_copied w2 = bytes_copied w" and f2: "files w2 = files w"
    using w2 bc1 f1 by simp_all
  have ac: "store_grows w2 w3"
    unfolding w3_def
    by (auto simp: after_comparison_def store_grows_refl syscalls_store_grows split: option.splits)
  have bc3: "bytes_copied w3 = bytes_copied w"
    using store_grows_counters [OF ac] bc2 by simp
  have f3: "files w3 = files w"
    unfolding w3_def using f2 by (simp add: after_comparison_files)
  obtain ns where ns: "map_of (files w) source = Some ns" "st = stat_of ns"
    using lstat_Some [OF assms(1)] by blast
  have nl: "\<not> S_ISLNK (st_mode (meta ns))"
    using assms(3) ns(2)
    by (auto simp: stat_of_def S_ISREG_def S_ISLNK_def S_IFREG_def S_IFLNK_def split: if_splits)
  note u = process_file_regular_unfold [OF l assms(2,3) w2,
             where n = n and root = root and prev_root = prev_root,
             folded dest_def prev_dest_def w3_def]
  show ?thesis
  proof (cases "fresh_copy_needed cfg prev_dest st w2")
    case True
    have run: "process_file (Suc n) cfg pf source root prev_root w =
                 map_option (\<lambda>(r, w5). (r, if count_bytes cfg
                                            then w5\<lparr>bytes_copied := bytes_copied w5 + st_size st\<rparr>
                                            else w5))
                   (copy_and_restore pf source dest st w3)"
      using u True by simp
    have returns: "\<exists>r w'. process_file (Suc n) cfg pf source root prev_root w = Some (r, w')"
      if opened: "fst (open_rdonly source w3) \<noteq> None
          \<and> fst (open_creat dest (st_mode st) (snd (open_rdonly source w3))) \<noteq> None"
    proof -
      obtain x where "copy_and_restore pf source dest st w3 = Some x"
        using copy_and_restore_returns [of pf source dest st w3] opened by blast
      then show ?thesis
        using run by (cases x) simp
    qed
    have returned:
      "(\<exists>w5. copy_and_restore pf source dest st w3 = Some (r, w5)
          \<and> w' = (if count_bytes cfg
                  then w5\<lparr>bytes_copied := bytes_copied w5 + st_size st\<rparr> else w5))
       \<and> (\<exists>evs. trace w' = trace w3 @ (Sys_open_rdonly source, True)
                           # (Sys_open_creat dest (st_mode st), True) # evs)
       \<and> dest \<in> paths w'
       \<and> (r \<longrightarrow> (\<exists>evs. trace w' = evs @ [(Sys_utime dest (st_atime st) (st_mtime st), True),
                                         (Sys_chown dest (st_uid st) (st_gid st), True),
                                         (Sys_chmod dest (st_mode st), True)]))
       \<and> (0 < sizeof_char_ptr pf \<and> map_of (files w) dest = None
            \<and> (\<forall>e\<in>set (drop (length (trace w3)) (trace w')). snd e)
          \<longrightarrow> map_option content (map_of (files w') dest)
                = map_option content (map_of (files w) source))
       \<and> bytes_copied w' = bytes_copied w + (if count_bytes cfg then st_size st else 0)"
      if p: "process_file (Suc n) cfg pf source root prev_root w = Some (r, w')" for r w'
    proof -
      obtain w5 where c: "copy_and_restore pf source dest st w3 = Some (r, w5)"
        and w': "w' = (if count_bytes cfg
                       then w5\<lparr>bytes_copied := bytes_copied w5 + st_size st\<rparr> else w5)"
        using p run by (cases "copy_and_restore pf source dest st w3") auto
      have tr: "trace w' = trace w5" and fl: "files w' = files w5"
        using w' by simp_all
      have bc5: "bytes_copied w5 = bytes_copied w"
        using store_grows_counters [OF copy_and_restore_store_grows [OF c]] bc3 by simp
      have 1: "\<exists>evs. trace w' = trace w3 @ (Sys_open_rdonly source, True)
                           # (Sys_open_creat dest (st_mode st), True) # evs"
        using copy_and_restore_opened [OF c] tr by simp
      have 2: "dest \<in> paths w'"
        using copy_and_restore_opened [OF c] fl by (simp add: paths_def)
      have 3: "\<exists>evs. trace w' = evs @ [(Sys_utime dest (st_atime st) (st_mtime st), True),
                                      (Sys_chown dest (st_uid st) (st_gid st), True),
                                      (Sys_chmod dest (st_mode st), True)]" if r
        using copy_and_restore_True [of pf source dest st w3 w5] c that tr by simp
      have 4: "map_option content (map_of (files w') dest)
                 = map_option content (map_of (files w) source)"
        if h: "0 < sizeof_char_ptr pf \<and> map_of (files w) dest = None
               \<and> (\<forall>e\<in>set (drop (length (trace w3)) (trace w')). snd e)"
      proof -
        obtain evs where e: "trace w5 = trace w3 @ evs"
          using store_grows_trace [OF copy_and_restore_store_grows [OF c]] by blast
        have "\<forall>e\<in>set evs. snd e"
          using h e tr by simp
        then have "map_option content (map_of (files w5) dest) = Some (content ns)"
          using copy_and_restore_content [OF _ c e, of ns] h ns(1) nl f3 by simp
        then show ?thesis
          using fl ns(1) by simp
      qed
      have 5: "bytes_copied w' = bytes_copied w + (if count_bytes cfg then st_size st else 0)"
        using w' bc5 by simp
      show ?thesis
        using c w' 1 2 3 4 5 by blast
    qed
    show ?thesis
      using True returns returned by blast
  next
    case False
    then obtain p where p: "prev_root = Some p"
      by (cases prev_root) (auto simp: fresh_copy_needed_def prev_dest_def)
    define pd where "pd = join_path p source"
    have pd: "prev_dest = Some pd"
      using p by (simp add: prev_dest_def pd_def)
    have ok: "fst (stat pd w2) \<noteq> None"
      using False pd by (auto simp: fresh_copy_needed_def)
    define w4 where "w4 = snd (stat pd w2)"
    have g4: "store_grows w2 w4"
      unfolding w4_def by (rule syscalls_store_grows)
    have t4: "trace w4 = trace w2 @ [(Sys_stat pd, True)]"
      unfolding w4_def using syscalls_trace(2) [of pd w2] ok by simp
    have f4: "files w4 = files w"
      unfolding w4_def using stat_world [of pd w2] f2 by (simp add: log_call_def)
    obtain r w' where sf: "symlink_file pd dest w4 = (r, w')"
      by (cases "symlink_file pd dest w4")
    have g': "store_grows w4 w'"
      using symlink_file_store_grows [of w4 pd dest] sf by simp
    have bc: "bytes_copied w' = bytes_copied w"
      using store_grows_counters [OF store_grows_trans [OF g4 g']] bc2 by simp
    have run: "process_file (Suc n) cfg pf source root prev_root w = Some (r, w')"
      using u False p sf by (simp add: pd_def w4_def)
    obtain ok1 evs where "trace w' = trace w4 @ (Sys_lstat pd, ok1) # evs"
      using symlink_file_first_call [of pd dest w4] sf by auto
    then have tr: "\<exists>ok evs. trace w' = trace w2 @ (Sys_stat pd, True) # (Sys_lstat pd, ok) # evs"
      using t4 by simp
    have store: "if r
                 then (\<exists>np nd. map_of (files w) pd = Some np \<and> map_of (files w) dest = None
                         \<and> files w' = files w @ [(dest, nd)] \<and> S_ISLNK (st_mode (meta nd))
                         \<and> content nd = (if S_ISLNK (st_mode (meta np)) then content np else pd))
                 else files w' = files w"
    proof (cases r)
      case True
      then show ?thesis
        using symlink_file_target [of pd dest w4 w'] sf f4 by auto
    next
      case False
      then show ?thesis
        using symlink_file_False [of pd dest w4 w'] sf f4 by simp
    qed
    have "prev_dest = Some pd
          \<and> process_file (Suc n) cfg pf source root prev_root w = Some (r, w')
          \<and> symlink_file pd dest (snd (stat pd w2)) = (r, w')
          \<and> (\<exists>ok evs. trace w' = trace w2 @ (Sys_stat pd, True) # (Sys_lstat pd, ok) # evs)
          \<and> bytes_copied w' = bytes_copied w
          \<and> (if r
             then (\<exists>np nd. map_of (files w) pd = Some np \<and> map_of (files w) dest = None
                     \<and> files w' = files w @ [(dest, nd)] \<and> S_ISLNK (st_mode (meta nd))
                     \<and> content nd = (if S_ISLNK (st_mode (meta np)) then content np else pd))
             else files w' = files w)"
      using pd run sf [unfolded w4_def] tr bc store by (intro conjI)
    then show ?thesis
      using False by blast
  qed
qed

text \<open>
  The file \<^verbatim>\<open>/s/a\<close> of five bytes, with byte counting enabled: what the two runs below
  need, evaluated.
\<close>

lemma second_run_source:
  "fst (lstat ''/s/a'' second_run) = Some (stat_of (mknode 0x81A4 0 7 ''hello''))"
  "\<not> excluded count_config linux_utc ''/s/a''"
  "map_option content (map_of (files second_run) ''/s/a'') = Some ''hello''"
  "map_of (files second_run) ''/b2/s/a'' = None"
  "map_option (\<lambda>n. S_ISLNK (st_mode (meta n))) (map_of (files second_run) ''/b1/s/a'')
     = Some False"
  "length (trace ((snd (lstat ''/s/a'' second_run))\<lparr>total_bytes := 5\<rparr>)) = 1"
  by code_simp+

lemma second_run_opened:
  "fst (open_rdonly ''/s/a'' ((snd (lstat ''/s/a'' second_run))\<lparr>total_bytes := 5\<rparr>)) \<noteq> None
   \<and> fst (open_creat ''/b2/s/a'' 0x81A4
            (snd (open_rdonly ''/s/a'' ((snd (lstat ''/s/a'' second_run))\<lparr>total_bytes := 5\<rparr>))))
       \<noteq> None"
  by code_simp

lemma second_run_copied:
  "(case process_file (Suc 0) count_config linux_utc ''/s/a'' ''/b2'' None second_run of
      None \<Rightarrow> False
    | Some (r, w') \<Rightarrow> r \<and> list_all snd (drop 1 (trace w')))"
  by code_simp

lemma second_run_unchanged:
  "\<not> fresh_copy_needed count_config (Some ''/b1/s/a'') (stat_of (mknode 0x81A4 0 7 ''hello''))
        ((snd (lstat ''/s/a'' second_run))\<lparr>total_bytes := 5\<rparr>)"
  by code_simp

lemma second_run_linked:
  "map_option fst (process_file (Suc 0) count_config linux_utc ''/s/a'' ''/b2''
                     (Some ''/b1'') second_run) = Some True"
  by code_simp

text \<open>
  With no previous root the file is copied: the run succeeds, ends with the three
  metadata calls, the new \<^verbatim>\<open>/b2/s/a\<close> holds the five bytes and the accumulator
  becomes 5. With the previous root \<^verbatim>\<open>/b1\<close>, which holds a counterpart of the same
  modification time, the new \<^verbatim>\<open>/b2/s/a\<close> is a link to \<^verbatim>\<open>/b1/s/a\<close> and the accumulator
  stays 0.
\<close>

theorem process_file_regular_witness:
  "(\<exists>w'. process_file (Suc 0) count_config linux_utc ''/s/a'' ''/b2'' None second_run
            = Some (True, w')
       \<and> (\<exists>evs. trace w' = evs @ [(Sys_utime ''/b2/s/a'' 7 7, True),
                                   (Sys_chown ''/b2/s/a'' 0 0, True),
                                   (Sys_chmod ''/b2/s/a'' 0x81A4, True)])
       \<and> map_option content (map_of (files w') ''/b2/s/a'') = Some ''hello''
       \<and> bytes_copied w' = 5)
   \<and> (\<exists>w' nd. process_file (Suc 0) count_config linux_utc ''/s/a'' ''/b2'' (Some ''/b1'')
                 second_run = Some (True, w')
         \<and> files w' = files second_run @ [(''/b2/s/a'', nd)]
         \<and> S_ISLNK (st_mode (meta nd)) \<and> content nd = ''/b1/s/a''
         \<and> bytes_copied w' = 0)"
proof -
  define st where "st = stat_of (mknode 0x81A4 0 7 ''hello'')"
  define w2 where "w2 = (snd (lstat ''/s/a'' second_run))\<lparr>total_bytes := 5\<rparr>"
  note src = second_run_source [folded st_def w2_def]
  have h3: "S_ISREG (st_mode st)"
    unfolding st_def by code_simp
  have st: "st_size st = 5" "st_mode st = 0x81A4" "st_atime st = 7" "st_mtime st = 7"
           "st_uid st = 0" "st_gid st = 0"
    unfolding st_def by code_simp+
  have cb: "count_bytes count_config = True" "force_copy count_config = False"
    by (simp_all add: count_config_def default_config_def)
  have z: "bytes_copied second_run = 0" "total_bytes second_run = 0"
    by (simp_all add: second_run_def mkworld_def)
  have j: "join_path ''/b1'' ''/s/a'' = ''/b1/s/a''" "join_path ''/b2'' ''/s/a'' = ''/b2/s/a''"
    by (simp_all add: join_path_def)
  have ptr: "0 < sizeof_char_ptr linux_utc"
    by code_simp
  have ac: "after_comparison count_config None w = w" for w
    by (simp add: after_comparison_def)
  have w2': "(snd (lstat ''/s/a'' second_run))\<lparr>total_bytes := 0 + 5\<rparr> = w2"
    by (simp add: w2_def)
  note copy = process_file_regular [OF src(1,2) h3, where root = "''/b2''" and prev_root = None
                and n = 0, unfolded j st option.map cb z if_True if_False ac w2']
  note link = process_file_regular [OF src(1,2) h3, where root = "''/b2''"
                and prev_root = "Some ''/b1''" and n = 0,
                unfolded j st option.map cb z if_True if_False w2']
  have fresh: "fresh_copy_needed count_config None st w2"
    by (simp add: fresh_copy_needed_def)
  note c = copy [THEN conjunct1, THEN mp, OF fresh]
  have "\<exists>r w'. process_file (Suc 0) count_config linux_utc ''/s/a'' ''/b2'' None second_run
                  = Some (r, w')"
    by (rule c [THEN conjunct1, THEN mp]) (rule second_run_opened [folded w2_def])
  then obtain r w' where run: "process_file (Suc 0) count_config linux_utc ''/s/a'' ''/b2'' None
                                 second_run = Some (r, w')"
    by (elim exE)
  have r: r and ok: "\<forall>e\<in>set (drop (length (trace w2)) (trace w')). snd e"
    using second_run_copied run by (simp_all add: src(6) list_all_iff)
  note q = c [THEN conjunct2, THEN spec, THEN spec, THEN mp, OF run]
  from q have "r \<longrightarrow> (\<exists>evs. trace w' = evs @ [(Sys_utime ''/b2/s/a'' 7 7, True),
                                               (Sys_chown ''/b2/s/a'' 0 0, True),
                                               (Sys_chmod ''/b2/s/a'' 0x81A4, True)])"
    by (elim conjE)
  then have a1: "\<exists>evs. trace w' = evs @ [(Sys_utime ''/b2/s/a'' 7 7, True),
                                         (Sys_chown ''/b2/s/a'' 0 0, True),
                                         (Sys_chmod ''/b2/s/a'' 0x81A4, True)]"
    using r by (rule mp)
  from q have "0 < sizeof_char_ptr linux_utc \<and> map_of (files second_run) ''/b2/s/a'' = None
                 \<and> (\<forall>e\<in>set (drop (length (trace w2)) (trace w')). snd e)
               \<longrightarrow> map_option content (map_of (files w') ''/b2/s/a'')
                     = map_option content (map_of (files second_run) ''/s/a'')"
    by (elim conjE)
  then have a2: "map_option content (map_of (files w') ''/b2/s/a'') = Some ''hello''"
    using ptr src(4) ok by (simp add: src(3))
  from q have "bytes_copied w' = 0 + 5"
    by (elim conjE)
  then have a3: "bytes_copied w' = 5"
    by simp
  have a: "\<exists>w'. process_file (Suc 0) count_config linux_utc ''/s/a'' ''/b2'' None second_run
                   = Some (True, w')
       \<and> (\<exists>evs. trace w' = evs @ [(Sys_utime ''/b2/s/a'' 7 7, True),
                                   (Sys_chown ''/b2/s/a'' 0 0, True),
                                   (Sys_chmod ''/b2/s/a'' 0x81A4, True)])
       \<and> map_option content (map_of (files w') ''/b2/s/a'') = Some ''hello''
       \<and> bytes_copied w' = 5"
    using run r a1 a2 a3 by (intro exI [of _ w'] conjI) simp_all
  note l = link [THEN conjunct2, THEN mp, OF second_run_unchanged [folded st_def w2_def]]
  from l obtain pd r' w'' where
        pd: "Some ''/b1/s/a'' = Some pd"
    and run': "process_file (Suc 0) count_config linux_utc ''/s/a'' ''/b2'' (Some ''/b1'')
                 second_run = Some (r', w'')"
    and bc: "bytes_copied w'' = 0"
    and store: "if r'
                then \<exists>np nd. map_of (files second_run) pd = Some np
                       \<and> map_of (files second_run) ''/b2/s/a'' = None
                       \<and> files w'' = files second_run @ [(''/b2/s/a'', nd)]
                       \<and> S_ISLNK (st_mode (meta nd))
                       \<and> content nd = (if S_ISLNK (st_mode (meta np)) then content np else pd)
                else files w'' = files second_run"
    by (elim exE conjE)
  have r': r'
    using second_run_linked run' by simp
  from store r' pd obtain np nd where
        np: "map_of (files second_run) ''/b1/s/a'' = Some np"
    and nd: "files w'' = files second_run @ [(''/b2/s/a'', nd)]" "S_ISLNK (st_mode (meta nd))"
            "content nd = (if S_ISLNK (st_mode (meta np)) then content np else ''/b1/s/a'')"
    by auto
  have "content nd = ''/b1/s/a''"
    using nd(3) np src(5) by simp
  then have b: "\<exists>w' nd. process_file (Suc 0) count_config linux_utc ''/s/a'' ''/b2''
                          (Some ''/b1'') second_run = Some (True, w')
         \<and> files w' = files second_run @ [(''/b2/s/a'', nd)]
         \<and> S_ISLNK (st_mode (meta nd)) \<and> content nd = ''/b1/s/a''
         \<and> bytes_copied w' = 0"
    using run' r' bc nd(1,2) by (intro exI [of _ w''] exI [of _ nd] conjI) simp_all
  show ?thesis
    using a b by (rule conjI)
qed

text \<open>
  Where the claim as first stated fails. With byte counting off (the default) the file is
  freshly copied, byte for byte, and the accumulator is what it was.
\<close>

lemma copy_without_counting:
  "map_option st_size (fst (lstat ''/s/a'' second_run)) = Some 5
   \<and> (case process_file (Suc 0) default_config linux_utc ''/s/a'' ''/b2'' None second_run of
         None \<Rightarrow> False
       | Some (r, w') \<Rightarrow>
           r \<and> map_option content (map_of (files w') ''/b2/s/a'') = Some ''hello''
             \<and> bytes_copied w' = bytes_copied second_run)"
  by code_simp

text \<open>
  Where the counterpart \<^verbatim>\<open>/b1/s/a\<close> is itself a link, to \<^verbatim>\<open>/b0/s/a\<close>, the new link
  points at \<^verbatim>\<open>/b0/s/a\<close>, not at the counterpart.
\<close>

lemma link_past_counterpart:
  "(case process_file (Suc 0) default_config linux_utc ''/s/a'' ''/b2'' (Some ''/b1'')
           linked_counterpart of
      None \<Rightarrow> False
    | Some (r, w') \<Rightarrow>
        r \<and> map_option content (map_of (files w') ''/b2/s/a'') = Some ''/b0/s/a''
          \<and> join_path ''/b1'' ''/s/a'' = ''/b1/s/a'')"
  by code_simp

text \<open>
  Where \<^verbatim>\<open>symlink\<close> is refused, the unchanged file gets no destination entry at all, and
  its processing fails.
\<close>

lemma link_refused:
  "(case process_file (Suc 0) default_config linux_utc ''/s/a'' ''/b2'' (Some ''/b1'')
           (second_run\<lparr>faults := symlink_refused\<rparr>) of
      None \<Rightarrow> False
    | Some (r, w') \<Rightarrow>
        \<not> r \<and> map_of (files w') ''/b2/s/a'' = None
          \<and> map fst (trace w') = [Sys_lstat ''/s/a'', Sys_stat ''/b1/s/a'',
               Sys_lstat ''/b1/s/a'', Sys_symlink ''/b1/s/a'' ''/b2/s/a''])"
  by code_simp

text \<open>
  Where a \<^verbatim>\<open>write\<close> is refused, \<^verbatim>\<open>copy_file\<close> returns false and \<^verbatim>\<open>copy_time\<close> is not
  called: the log ends with the \<^verbatim>\<open>write\<close>. The size of the file is added to the
  accumulator all the same.
\<close>

lemma copy_not_restored:
  "(case process_file (Suc 0) count_config linux_utc ''/s/a'' ''/b2'' None
           (second_run\<lparr>faults := write_refused\<rparr>) of
      None \<Rightarrow> False
    | Some (r, w') \<Rightarrow>
        \<not> r \<and> bytes_copied w' = 5
          \<and> map fst (trace w') = [Sys_lstat ''/s/a'', Sys_open_rdonly ''/s/a'',
               Sys_open_creat ''/b2/s/a'' 0x81A4, Sys_malloc 4096, Sys_read ''/s/a'' 8,
               Sys_write ''/b2/s/a'' 5])"
  by code_simp

theorem process_file_regular_counterexample:
  "(map_option st_size (fst (lstat ''/s/a'' second_run)) = Some 5
    \<and> (case process_file (Suc 0) default_config linux_utc ''/s/a'' ''/b2'' None second_run of
          None \<Rightarrow> False
        | Some (r, w') \<Rightarrow>
            r \<and> map_option content (map_of (files w') ''/b2/s/a'') = Some ''hello''
              \<and> bytes_copied w' = bytes_copied second_run))
   \<and> (case process_file (Suc 0) default_config linux_utc ''/s/a'' ''/b2'' (Some ''/b1'')
              linked_counterpart of
         None \<Rightarrow> False
       | Some (r, w') \<Rightarrow>
           r \<and> map_option content (map_of (files w') ''/b2/s/a'') = Some ''/b0/s/a''
             \<and> join_path ''/b1'' ''/s/a'' = ''/b1/s/a'')
   \<and> (case process_file (Suc 0) default_config linux_utc ''/s/a'' ''/b2'' (Some ''/b1'')
              (second_run\<lparr>faults := symlink_refused\<rparr>) of
         None \<Rightarrow> False
       | Some (r, w') \<Rightarrow>
           \<not> r \<and> map_of (files w') ''/b2/s/a'' = None
             \<and> map fst (trace w') = [Sys_lstat ''/s/a'', Sys_stat ''/b1/s/a'',
                  Sys_lstat ''/b1/s/a'', Sys_symlink ''/b1/s/a'' ''/b2/s/a''])
   \<and> (case process_file (Suc 0) count_config linux_utc ''/s/a'' ''/b2'' None
              (second_run\<lparr>faults := write_refused\<rparr>) of
         None \<Rightarrow> False
       | Some (r, w') \<Rightarrow>
           \<not> r \<and> bytes_copied w' = 5
             \<and> map fst (trace w') = [Sys_lstat ''/s/a'', Sys_open_rdonly ''/s/a'',
                  Sys_open_creat ''/b2/s/a'' 0x81A4, Sys_malloc 4096, Sys_read ''/s/a'' 8,
                  Sys_write ''/b2/s/a'' 5])"
  by (rule conjI [OF copy_without_counting
             conjI [OF link_past_counterpart conjI [OF link_refused copy_not_restored]]])

end
